theory Spec2Isabelle
  imports Complex_Main
begin

section \<open>Floating-point values\<close>

text \<open>
  Tensor elements are floating-point numbers. They are modelled as the reals extended by
  the three special values of IEEE arithmetic. Operations on finite values are exact:
  rounding, overflow, underflow and the sign of zero are not modelled. The special
  values follow IEEE: \<open>log 0 = -inf\<close>, the logarithm of a negative number is NaN,
  \<open>inf - inf\<close> is NaN, and NaN propagates.
\<close>

datatype fl = Fin real | PInf | NInf | NaN

fun fl_neg :: "fl \<Rightarrow> fl" where
  "fl_neg (Fin a) = Fin (- a)"
| "fl_neg PInf = NInf"
| "fl_neg NInf = PInf"
| "fl_neg NaN = NaN"

fun fl_add :: "fl \<Rightarrow> fl \<Rightarrow> fl" where
  "fl_add NaN _ = NaN"
| "fl_add _ NaN = NaN"
| "fl_add PInf NInf = NaN"
| "fl_add NInf PInf = NaN"
| "fl_add PInf _ = PInf"
| "fl_add _ PInf = PInf"
| "fl_add NInf _ = NInf"
| "fl_add _ NInf = NInf"
| "fl_add (Fin a) (Fin b) = Fin (a + b)"

definition fl_sub :: "fl \<Rightarrow> fl \<Rightarrow> fl" where
  "fl_sub a b = fl_add a (fl_neg b)"

text \<open>The sign of a value: \<open>1\<close>, \<open>0\<close> or \<open>-1\<close>; NaN has none.\<close>

fun fl_sign :: "fl \<Rightarrow> int option" where
  "fl_sign (Fin a) = Some (if a > 0 then 1 else if a < 0 then -1 else 0)"
| "fl_sign PInf = Some 1"
| "fl_sign NInf = Some (-1)"
| "fl_sign NaN = None"

fun fl_inf_of_sign :: "int \<Rightarrow> fl" where
  "fl_inf_of_sign s = (if s > 0 then PInf else if s < 0 then NInf else NaN)"

fun fl_mul :: "fl \<Rightarrow> fl \<Rightarrow> fl" where
  "fl_mul (Fin a) (Fin b) = Fin (a * b)"
| "fl_mul a b =
     (case (fl_sign a, fl_sign b) of
        (Some s, Some t) \<Rightarrow> fl_inf_of_sign (s * t)
      | _ \<Rightarrow> NaN)"

fun fl_div :: "fl \<Rightarrow> fl \<Rightarrow> fl" where
  "fl_div (Fin a) (Fin b) =
     (if b = 0 then (if a > 0 then PInf else if a < 0 then NInf else NaN) else Fin (a / b))"
| "fl_div (Fin a) PInf = Fin 0"
| "fl_div (Fin a) NInf = Fin 0"
| "fl_div PInf (Fin b) = (if b < 0 then NInf else PInf)"
| "fl_div NInf (Fin b) = (if b < 0 then PInf else NInf)"
| "fl_div _ _ = NaN"

fun fl_exp :: "fl \<Rightarrow> fl" where
  "fl_exp (Fin a) = Fin (exp a)"
| "fl_exp PInf = PInf"
| "fl_exp NInf = Fin 0"
| "fl_exp NaN = NaN"

fun fl_log :: "fl \<Rightarrow> fl" where
  "fl_log (Fin a) = (if a > 0 then Fin (ln a) else if a = 0 then NInf else NaN)"
| "fl_log PInf = PInf"
| "fl_log NInf = NaN"
| "fl_log NaN = NaN"

text \<open>IEEE equality, as \<open>==\<close> on tensors computes it: NaN equals nothing.\<close>

fun fl_eq :: "fl \<Rightarrow> fl \<Rightarrow> bool" where
  "fl_eq NaN _ = False"
| "fl_eq _ NaN = False"
| "fl_eq a b = (a = b)"

text \<open>\<open>torch.clamp(x, min=m)\<close> for a finite bound \<open>m\<close>: NaN stays NaN.\<close>

fun fl_clamp_min :: "real \<Rightarrow> fl \<Rightarrow> fl" where
  "fl_clamp_min m (Fin a) = Fin (max a m)"
| "fl_clamp_min m PInf = PInf"
| "fl_clamp_min m NInf = Fin m"
| "fl_clamp_min m NaN = NaN"

definition fl_sum :: "fl list \<Rightarrow> fl" where
  "fl_sum xs = foldr fl_add xs (Fin 0)"

text \<open>\<open>torch.logsumexp\<close> along one dimension: the logarithm of the sum of the exponentials.\<close>

definition logsumexp :: "fl list \<Rightarrow> fl" where
  "logsumexp xs = fl_log (fl_sum (map fl_exp xs))"

text \<open>\<open>F.log_softmax\<close> along one dimension.\<close>

definition log_softmax :: "fl list \<Rightarrow> fl list" where
  "log_softmax xs = map (\<lambda>x. fl_sub x (logsumexp xs)) xs"

fun is_finite :: "fl \<Rightarrow> bool" where
  "is_finite (Fin a) = True"
| "is_finite _ = False"

section \<open>analysis/faiss\_mask\_flat\_gpu.py\<close>

subsection \<open>One batch of the sweep\<close>

text \<open>\<open>dists = -1*dists\<close>, for one row of the batch.\<close>

definition negate_dists :: "fl list \<Rightarrow> fl list" where
  "negate_dists dists = map (\<lambda>d. fl_mul (Fin (-1)) d) dists"

text \<open>\<open>probs = F.log_softmax(dists/temp, dim=-1)\<close>, on the negated distances of one row.\<close>

definition probs_row :: "real \<Rightarrow> fl list \<Rightarrow> fl list" where
  "probs_row temp dists = log_softmax (map (\<lambda>d. fl_div d (Fin temp)) dists)"

text \<open>
  The mask of one row. \<open>retrieved\<close> is the row of \<open>vals[knns].squeeze(-1)\<close>, the value ids
  of the retrieved neighbours, and \<open>tgt\<close> the target id of the query, broadcast along
  the row. \<open>torch.eq(...).float()\<close> gives 1.0 or 0.0; the two indexed assignments follow in
  the order of the source.
\<close>

definition index_mask :: "int list \<Rightarrow> int \<Rightarrow> fl list" where
  "index_mask retrieved tgt =
     (let m0 = map (\<lambda>v. if v = tgt then Fin 1 else Fin 0) retrieved;
          m1 = map (\<lambda>x. if fl_eq x (Fin 0) then Fin (- 10000) else x) m0;
          m2 = map (\<lambda>x. if fl_eq x (Fin 1) then Fin 0 else x) m1
      in m2)"

text \<open>\<open>yhat_knn_prob = torch.logsumexp(probs + index_mask, dim=-1)\<close>, for one row.\<close>

definition yhat_knn_prob :: "fl list \<Rightarrow> fl list \<Rightarrow> fl" where
  "yhat_knn_prob probs bias = logsumexp (map2 fl_add probs bias)"

subsection \<open>The sweep\<close>

datatype error = AssertionError | ValueError | IndexError | RuntimeError | AttributeError

text \<open>The first error of a list of results, or all the values.\<close>

fun collect :: "(error + 'a) list \<Rightarrow> error + 'a list" where
  "collect [] = Inr []"
| "collect (r # rs) =
     (case r of
        Inl e \<Rightarrow> Inl e
      | Inr x \<Rightarrow> (case collect rs of Inl e \<Rightarrow> Inl e | Inr xs \<Rightarrow> Inr (x # xs)))"

definition topk :: nat where
  "topk = 1024"

definition batch_size :: nat where
  "batch_size = 2000"

text \<open>
  Indexing an array by one integer, as numpy does: a negative index counts from the end,
  an index out of range raises IndexError.
\<close>

definition np_index :: "'a list \<Rightarrow> int \<Rightarrow> error + 'a" where
  "np_index xs i =
     (if 0 \<le> i \<and> i < int (length xs) then Inr (xs ! nat i)
      else if i < 0 \<and> - int (length xs) \<le> i then Inr (xs ! nat (i + int (length xs)))
      else Inl IndexError)"

text \<open>\<open>vals[knns].squeeze(-1)\<close> for one row of neighbour ids.\<close>

definition lookup_vals :: "int list \<Rightarrow> int list \<Rightarrow> error + int list" where
  "lookup_vals vals knns = collect (map (np_index vals) knns)"

text \<open>
  The index is outside the repository. \<open>search q k\<close> stands for the row that
  \<open>index.search\<close> returns for the query \<open>q\<close>: its \<open>k\<close> distances paired with its \<open>k\<close>
  neighbour ids (the two arrays of the source have the same shape). A flat index searches
  every query on its own, so the result for a batch is the list of the rows of its queries.

  One row of the body of the batch loop: the entries appended to \<open>all_probs\<close>, \<open>all_knns\<close>
  and \<open>all_dists\<close> for one query.
\<close>

definition row_step ::
  "int list \<Rightarrow> real \<Rightarrow> (fl \<times> int) list \<Rightarrow> int \<Rightarrow> error + (fl \<times> int list \<times> fl)" where
  "row_step vals temp res tgt =
     (let knns = map snd res;
          dists = negate_dists (map fst res);
          probs = probs_row temp dists
      in case lookup_vals vals knns of
           Inl e \<Rightarrow> Inl e
         | Inr retrieved \<Rightarrow>
             Inr (yhat_knn_prob probs (index_mask retrieved tgt), knns, fl_sum dists))"

definition batch_step ::
  "int list \<Rightarrow> ('q \<Rightarrow> nat \<Rightarrow> (fl \<times> int) list) \<Rightarrow> real \<Rightarrow> 'q list \<Rightarrow> int list \<Rightarrow>
   error + (fl \<times> int list \<times> fl) list" where
  "batch_step vals search temp batch_queries tgt =
     collect (map2 (\<lambda>q t. row_step vals temp (search q topk) t) batch_queries tgt)"

text \<open>The three arrays saved for one temperature.\<close>

record sweep_out =
  saved_probs :: "fl list"
  saved_knns :: "int list list"
  saved_dists :: "fl list"

text \<open>The body of the loop over the temperatures: the batches, then the three saves.\<close>

definition sweep_temp ::
  "int list \<Rightarrow> ('q \<Rightarrow> nat \<Rightarrow> (fl \<times> int) list) \<Rightarrow> 'q list \<Rightarrow> int list \<Rightarrow> real \<Rightarrow>
   error + sweep_out" where
  "sweep_temp vals search queries tokens temp =
     (let num_batches = length queries div batch_size + 1;
          batches =
            map (\<lambda>batch_idx.
                   batch_step vals search temp
                     (take batch_size (drop (batch_idx * batch_size) queries))
                     (take batch_size (drop (batch_idx * batch_size) tokens)))
              [0..<num_batches]
      in case collect batches of
           Inl e \<Rightarrow> Inl e
         | Inr rs \<Rightarrow>
             Inr \<lparr>saved_probs = concat (map (map fst) rs),
                  saved_knns = concat (map (map (fst \<circ> snd)) rs),
                  saved_dists = concat (map (map (snd \<circ> snd)) rs)\<rparr>)"

text \<open>
  The script: the assertion on the two loaded arrays, then one sweep for each
  temperature. The temperatures are the values of \<open>np.arange(2.0, 15.1, 0.1)\<close>, given here
  as a list.
\<close>

definition sweep ::
  "int list \<Rightarrow> ('q \<Rightarrow> nat \<Rightarrow> (fl \<times> int) list) \<Rightarrow> 'q list \<Rightarrow> int list \<Rightarrow> real list \<Rightarrow>
   error + (real \<times> sweep_out) list" where
  "sweep vals search queries tokens temps =
     (if length queries \<noteq> length tokens then Inl AssertionError
      else collect (map (\<lambda>temp.
             case sweep_temp vals search queries tokens temp of
               Inl e \<Rightarrow> Inl e
             | Inr out \<Rightarrow> Inr (temp, out)) temps))"

text \<open>
  For the statements about the sweep: the element that \<open>vals[i]\<close> reads for an id within
  range, and the ids of a search result all being within range of the datastore.
\<close>

definition value_at :: "int list \<Rightarrow> int \<Rightarrow> int" where
  "value_at vals i = vals ! nat (if i < 0 then i + int (length vals) else i)"

definition ids_in_range :: "int list \<Rightarrow> (fl \<times> int) list \<Rightarrow> bool" where
  "ids_in_range vals res =
     list_all (\<lambda>i. - int (length vals) \<le> i \<and> i < int (length vals)) (map snd res)"

definition row_result :: "int list \<Rightarrow> real \<Rightarrow> (fl \<times> int) list \<Rightarrow> int \<Rightarrow> fl \<times> int list \<times> fl" where
  "row_result vals temp res tgt =
     (yhat_knn_prob (probs_row temp (negate_dists (map fst res)))
        (index_mask (map (value_at vals) (map snd res)) tgt),
      map snd res,
      fl_neg (fl_sum (map fst res)))"

section \<open>fairseq/sequence\_scorer.py\<close>

subsection \<open>Tensors and slices\<close>

text \<open>
  A tensor with two leading dimensions, stored row by row as torch stores a contiguous
  tensor. A third dimension, when there is one, is the type of the cells: the decoder
  output has a feature vector in each cell, the normalised probabilities a row over the
  vocabulary, the target a token id.
\<close>

record 'a grid =
  nrows :: nat
  ncols :: nat
  cells :: "'a list"

definition wf_grid :: "'a grid \<Rightarrow> bool" where
  "wf_grid g = (length (cells g) = nrows g * ncols g)"

definition map_cells :: "('a \<Rightarrow> 'b) \<Rightarrow> 'a grid \<Rightarrow> 'b grid" where
  "map_cells f g = \<lparr>nrows = nrows g, ncols = ncols g, cells = map f (cells g)\<rparr>"

text \<open>\<open>t[i]\<close> for a row index within range.\<close>

definition grid_row :: "'a grid \<Rightarrow> nat \<Rightarrow> 'a list" where
  "grid_row g i = take (ncols g) (drop (i * ncols g) (cells g))"

text \<open>Python's slices \<open>xs[a:b]\<close> and \<open>xs[a:]\<close>: a negative bound counts from the end,
  and bounds are clipped to the list.\<close>

definition py_clip :: "nat \<Rightarrow> int \<Rightarrow> nat" where
  "py_clip n i = (if i < 0 then nat (max 0 (i + int n)) else min n (nat i))"

definition py_slice :: "'a list \<Rightarrow> int \<Rightarrow> int \<Rightarrow> 'a list" where
  "py_slice xs a b =
     (let lo = py_clip (length xs) a; hi = py_clip (length xs) b
      in take (hi - lo) (drop lo xs))"

definition py_slice_from :: "'a list \<Rightarrow> int \<Rightarrow> 'a list" where
  "py_slice_from xs a = drop (py_clip (length xs) a) xs"

text \<open>\<open>xs[i]\<close> on a Python list, for an index that is not negative.\<close>

definition py_index :: "'a list \<Rightarrow> nat \<Rightarrow> error + 'a" where
  "py_index xs i = (if i < length xs then Inr (xs ! i) else Inl IndexError)"

subsection \<open>The scorer\<close>

text \<open>\<open>sys.maxsize\<close> of a 64-bit interpreter.\<close>

definition sys_maxsize :: int where
  "sys_maxsize = 2 ^ 63 - 1"

text \<open>
  The fields of the scorer that scoring reads. \<open>coef\<close> is the projection matrix, one row
  for each token of the vocabulary; \<open>lmbda\<close> is \<open>args.lmbda\<close>. Arithmetic is exact, so the
  conversion to half precision under \<open>args.fp16\<close> changes nothing and is left out, as are
  the attention, the alignment and the saved keys and queries of a hypothesis.
\<close>

record scorer =
  pad :: nat
  softmax_batch :: int
  coef :: "fl list list option"
  lmbda :: real

text \<open>
  \<open>__init__\<close>. \<open>softmax_batch or sys.maxsize\<close> replaces \<open>None\<close> and \<open>0\<close>; the assertion
  follows. The projection matrix is built by code outside the repository's sources and is
  taken as given.
\<close>

definition SequenceScorer_init ::
  "nat \<Rightarrow> int option \<Rightarrow> fl list list option \<Rightarrow> real \<Rightarrow> error + scorer" where
  "SequenceScorer_init tgt_pad softmax_batch_arg coef_arg lmbda_arg =
     (let sb = (case softmax_batch_arg of
                  None \<Rightarrow> sys_maxsize
                | Some n \<Rightarrow> if n = 0 then sys_maxsize else n)
      in if sb > 0
         then Inr \<lparr>pad = tgt_pad, softmax_batch = sb, coef = coef_arg, lmbda = lmbda_arg\<rparr>
         else Inl AssertionError)"

text \<open>
  A model of the ensemble at the input of the call: the first component of its decoder
  output, and \<open>get_normalized_probs\<close>, which normalises the feature vector of each
  position on its own into a row over the vocabulary (log-probabilities when the flag is
  set).
\<close>

record 'r model =
  decoder_out0 :: "'r grid"
  normalized_probs :: "bool \<Rightarrow> 'r \<Rightarrow> fl list"

record sample =
  target :: "nat grid"
  start_indices :: "int list option"

subsection \<open>batch\_for\_softmax\<close>

definition chunk :: "'a list \<Rightarrow> 'a grid" where
  "chunk xs = \<lparr>nrows = 1, ncols = length xs, cells = xs\<rparr>"

text \<open>
  The \<open>while\<close> loop of the chunked branch, from the offset \<open>s\<close>: \<open>n\<close> is \<open>flat.size(1)\<close>.
  The loop does not end when the step is not positive.
\<close>

partial_function (option) slices ::
  "int \<Rightarrow> nat \<Rightarrow> 'r list \<Rightarrow> nat list \<Rightarrow> int \<Rightarrow> ('r grid \<times> nat grid \<times> bool) list option" where
  "slices sb n flat flat_tgt s =
     (if s < int n then
        Option.bind (slices sb n flat flat_tgt (s + sb))
          (\<lambda>more. Some ((chunk (py_slice flat s (s + sb)),
                           chunk (py_slice flat_tgt s (s + sb)), False) # more))
      else Some [])"

text \<open>
  The triples that the generator yields, in order. The view of the target as
  \<open>flat.shape[:-1]\<close> needs as many elements as the flattened decoder output has positions.
\<close>

definition batch_for_softmax ::
  "scorer \<Rightarrow> 'r grid \<Rightarrow> nat grid \<Rightarrow> (error + ('r grid \<times> nat grid \<times> bool) list) option" where
  "batch_for_softmax sc first tgt =
     (let bsz = nrows first; tsz = ncols first in
      if int (bsz * tsz) < softmax_batch sc then Some (Inr [(first, tgt, True)])
      else if nrows tgt * ncols tgt \<noteq> bsz * tsz then Some (Inl RuntimeError)
      else map_option Inr (slices (softmax_batch sc) (bsz * tsz) (cells first) (cells tgt) 0))"

subsection \<open>Scoring one slice\<close>

text \<open>
  \<open>probs.gather(dim=2, index=target.unsqueeze(-1))\<close> for a target of the shape of the
  first two dimensions of \<open>probs\<close>: the entry of each row at its target id. An id outside
  the row is an error.
\<close>

definition gather_target_probs :: "fl list grid \<Rightarrow> nat grid \<Rightarrow> error + fl grid" where
  "gather_target_probs probs tgt =
     (if nrows probs \<noteq> nrows tgt \<or> ncols probs \<noteq> ncols tgt
         \<or> length (cells probs) \<noteq> length (cells tgt)
      then Inl RuntimeError
      else case collect (map2 (\<lambda>r t. if t < length r then Inr (r ! t) else Inl RuntimeError)
                           (cells probs) (cells tgt)) of
             Inl e \<Rightarrow> Inl e
           | Inr ps \<Rightarrow> Inr \<lparr>nrows = nrows tgt, ncols = ncols tgt, cells = ps\<rparr>)"

text \<open>
  One position of \<open>torch.log(torch.clamp(torch.sparse.mm(self.coef, curr_prob.T).T,
  min=1e-9))\<close>: each row of the matrix times the probabilities over the expanded
  vocabulary, clamped from below, then the logarithm.
\<close>

definition project_row :: "fl list list \<Rightarrow> fl list \<Rightarrow> error + fl list" where
  "project_row c p =
     (if list_ex (\<lambda>crow. length crow \<noteq> length p) c then Inl RuntimeError
      else Inr (map (\<lambda>crow. fl_log (fl_clamp_min (1 / 10 ^ 9) (fl_sum (map2 fl_mul crow p)))) c))"

text \<open>
  \<open>curr_prob\<close> of one slice: the two branches on \<open>self.coef\<close>. \<open>n_models\<close> is
  \<open>len(models)\<close>.
\<close>

definition curr_prob_of :: "scorer \<Rightarrow> 'r model \<Rightarrow> nat \<Rightarrow> 'r grid \<Rightarrow> error + fl list grid" where
  "curr_prob_of sc m n_models bd =
     (case coef sc of
        None \<Rightarrow> Inr (map_cells (normalized_probs m (n_models = 1)) bd)
      | Some c \<Rightarrow>
          (let p = map_cells (normalized_probs m False) bd in
           if nrows p \<noteq> 1 then Inl AssertionError
           else case collect (map (project_row c) (cells p)) of
                  Inl e \<Rightarrow> Inl e
                | Inr rows \<Rightarrow> Inr \<lparr>nrows = 1, ncols = ncols p, cells = rows\<rparr>))"

text \<open>
  \<open>probs[idx:end] = v\<close> on a one-dimensional buffer: the values fill the slice when they
  are as many as it has places, one value is broadcast, anything else is an error.
\<close>

definition assign_slice :: "fl list \<Rightarrow> nat \<Rightarrow> nat \<Rightarrow> fl list \<Rightarrow> error + fl list" where
  "assign_slice buf idx end v =
     (let lo = min idx (length buf); hi = max lo (min end (length buf)) in
      if length v = hi - lo then Inr (take lo buf @ v @ drop hi buf)
      else if length v = 1 then Inr (take lo buf @ replicate (hi - lo) (hd v) @ drop hi buf)
      else Inl RuntimeError)"

text \<open>
  The body of the loop over the yielded triples, on the pair of \<open>probs\<close> and \<open>idx\<close>.
  \<open>uninit\<close> is the content of the buffer that \<open>curr_prob.new\<close> allocates without
  initialising it.
\<close>

definition score_chunk ::
  "scorer \<Rightarrow> 'r model \<Rightarrow> nat \<Rightarrow> nat grid \<Rightarrow> (nat \<Rightarrow> fl) \<Rightarrow> 'r grid \<times> nat grid \<times> bool \<Rightarrow>
   fl list option \<times> nat \<Rightarrow> error + (fl list option \<times> nat)" where
  "score_chunk sc m n_models orig_target uninit item st =
     (case item of (bd, tgt, is_single) \<Rightarrow>
      case st of (probs, idx) \<Rightarrow>
      case curr_prob_of sc m n_models bd of
        Inl e \<Rightarrow> Inl e
      | Inr curr_prob \<Rightarrow>
          if is_single then
            (case gather_target_probs curr_prob orig_target of
               Inl e \<Rightarrow> Inl e
             | Inr g \<Rightarrow> Inr (Some (cells g), idx))
          else
            (let buf = (case probs of
                          None \<Rightarrow> map uninit [0..<nrows orig_target * ncols orig_target]
                        | Some b \<Rightarrow> b);
                 step = nrows curr_prob * ncols curr_prob;
                 end = step + idx
             in case gather_target_probs curr_prob tgt of
                  Inl e \<Rightarrow> Inl e
                | Inr tgt_probs \<Rightarrow>
                    (case assign_slice buf idx end (cells tgt_probs) of
                       Inl e \<Rightarrow> Inl e
                     | Inr buf' \<Rightarrow> Inr (Some buf', end))))"

fun fold_err :: "('x \<Rightarrow> 's \<Rightarrow> error + 's) \<Rightarrow> 'x list \<Rightarrow> 's \<Rightarrow> error + 's" where
  "fold_err f [] st = Inr st"
| "fold_err f (x # xs) st = (case f x st of Inl e \<Rightarrow> Inl e | Inr st' \<Rightarrow> fold_err f xs st')"

text \<open>\<open>probs.view(sample['target'].shape)\<close>.\<close>

definition view_as :: "fl list option \<Rightarrow> nat grid \<Rightarrow> error + fl grid" where
  "view_as probs tgt =
     (case probs of
        None \<Rightarrow> Inl AttributeError
      | Some b \<Rightarrow>
          if length b = nrows tgt * ncols tgt
          then Inr \<lparr>nrows = nrows tgt, ncols = ncols tgt, cells = b\<rparr>
          else Inl RuntimeError)"

text \<open>The target probabilities of one model: the loop over its slices, then the view.\<close>

definition score_model ::
  "scorer \<Rightarrow> 'r model \<Rightarrow> nat \<Rightarrow> nat grid \<Rightarrow> (nat \<Rightarrow> fl) \<Rightarrow> (error + fl grid) option" where
  "score_model sc m n_models orig_target uninit =
     (case batch_for_softmax sc (decoder_out0 m) orig_target of
        None \<Rightarrow> None
      | Some (Inl e) \<Rightarrow> Some (Inl e)
      | Some (Inr batched) \<Rightarrow>
          Some (case fold_err (score_chunk sc m n_models orig_target uninit) batched (None, 0) of
                  Inl e \<Rightarrow> Inl e
                | Inr (probs, idx) \<Rightarrow> view_as probs orig_target))"

subsection \<open>Retrieval fusion\<close>

text \<open>\<open>np.log\<close> of a Python float: a warning, never an exception.\<close>

definition np_log :: "real \<Rightarrow> fl" where
  "np_log x = fl_log (Fin x)"

text \<open>
  \<open>combine_knn_and_vocab_probs\<close> on the cells of two tensors of one shape: the stack,
  the coefficients, the sum and the reduction along the stacked dimension.
\<close>

definition combine_knn_and_vocab_probs :: "fl list \<Rightarrow> fl list \<Rightarrow> real \<Rightarrow> fl list" where
  "combine_knn_and_vocab_probs knn_p vocab_p coeff =
     (let combine_probs = [vocab_p, knn_p];
          coeffs0 = map (map (\<lambda>_. Fin 1)) combine_probs;
          coeffs1 = coeffs0[0 := map (\<lambda>_. np_log (1 - coeff)) (coeffs0 ! 0)];
          coeffs = coeffs1[1 := map (\<lambda>_. np_log coeff) (coeffs1 ! 1)];
          summed = map2 (map2 fl_add) combine_probs coeffs
      in map (\<lambda>i. logsumexp (map (\<lambda>r. r ! i) summed)) [0..<length vocab_p])"

text \<open>
  The branch on \<open>'knn_dstore' in kwargs\<close>. The datastore is outside the repository's
  sources: \<open>d tgt pad_idx\<close> stands for \<open>get_knn_log_prob\<close> at the queries of the call,
  permuted and squeezed to the shape of the target. The stack needs the two tensors to
  have one shape. The result is the fused \<open>probs\<close> and \<open>yhat_knn_prob\<close>.
\<close>

definition knn_fusion ::
  "scorer \<Rightarrow> nat \<Rightarrow> (nat grid \<Rightarrow> nat \<Rightarrow> fl grid) option \<Rightarrow> nat grid \<Rightarrow> fl grid \<Rightarrow>
   error + (fl grid \<times> fl grid option)" where
  "knn_fusion sc n_models knn_dstore orig_target probs =
     (case knn_dstore of
        None \<Rightarrow> Inr (probs, None)
      | Some d \<Rightarrow>
          if n_models \<noteq> 1 then Inl ValueError
          else
            (let yhat = d orig_target (pad sc) in
             if nrows yhat \<noteq> nrows probs \<or> ncols yhat \<noteq> ncols probs
                \<or> length (cells yhat) \<noteq> length (cells probs)
             then Inl RuntimeError
             else Inr (\<lparr>nrows = nrows probs, ncols = ncols probs,
                        cells = combine_knn_and_vocab_probs (cells yhat) (cells probs) (lmbda sc)\<rparr>,
                       Some yhat)))"

subsection \<open>The ensemble\<close>

text \<open>\<open>avg_probs.add_(probs)\<close>.\<close>

definition grid_add :: "fl grid \<Rightarrow> fl grid \<Rightarrow> error + fl grid" where
  "grid_add a b =
     (if nrows a \<noteq> nrows b \<or> ncols a \<noteq> ncols b \<or> length (cells a) \<noteq> length (cells b)
      then Inl RuntimeError
      else Inr \<lparr>nrows = nrows a, ncols = ncols a, cells = map2 fl_add (cells a) (cells b)\<rparr>)"

text \<open>The body of the loop over the models, up to the update of \<open>avg_probs\<close>.\<close>

definition per_model ::
  "scorer \<Rightarrow> nat \<Rightarrow> (nat grid \<Rightarrow> nat \<Rightarrow> fl grid) option \<Rightarrow> nat grid \<Rightarrow> (nat \<Rightarrow> fl) \<Rightarrow>
   'r model \<Rightarrow> (error + (fl grid \<times> fl grid option)) option" where
  "per_model sc n_models knn_dstore orig_target uninit m =
     (case score_model sc m n_models orig_target uninit of
        None \<Rightarrow> None
      | Some (Inl e) \<Rightarrow> Some (Inl e)
      | Some (Inr probs) \<Rightarrow> Some (knn_fusion sc n_models knn_dstore orig_target probs))"

text \<open>The loop over the models, on the pair of \<open>avg_probs\<close> and \<open>yhat_knn_prob\<close>.\<close>

fun models_loop ::
  "('m \<Rightarrow> (error + (fl grid \<times> fl grid option)) option) \<Rightarrow> 'm list \<Rightarrow>
   fl grid option \<times> fl grid option \<Rightarrow> (error + (fl grid option \<times> fl grid option)) option" where
  "models_loop f [] st = Some (Inr st)"
| "models_loop f (m # ms) st =
     (case f m of
        None \<Rightarrow> None
      | Some (Inl e) \<Rightarrow> Some (Inl e)
      | Some (Inr (probs, yhat)) \<Rightarrow>
          (case fst st of
             None \<Rightarrow> models_loop f ms (Some probs, yhat)
           | Some avg \<Rightarrow>
               (case grid_add avg probs of
                  Inl e \<Rightarrow> Some (Inl e)
                | Inr avg' \<Rightarrow> models_loop f ms (Some avg', yhat))))"

text \<open>\<open>avg_probs.div_(len(models))\<close> and \<open>avg_probs.log_()\<close>, when there are several models.\<close>

definition finish_avg :: "nat \<Rightarrow> fl grid \<Rightarrow> fl grid" where
  "finish_avg n_models avg_probs =
     (if n_models > 1
      then map_cells fl_log (map_cells (\<lambda>x. fl_div x (Fin (real n_models))) avg_probs)
      else avg_probs)"

subsection \<open>The hypotheses\<close>

record hypo =
  tokens :: "nat list"
  score :: fl
  positional_scores :: "fl list"
  knn_probs :: "fl list option"

text \<open>
  Modelled from the spec: \<open>utils.strip_pad\<close> is not among the sources. The output
  assembly strips the padding from the target, and the length of the result is the number
  of target tokens that are not padding.
\<close>

definition strip_pad :: "nat list \<Rightarrow> nat \<Rightarrow> nat list" where
  "strip_pad xs pad_idx = filter (\<lambda>t. t \<noteq> pad_idx) xs"

text \<open>The body of the loop over the sequences of the batch.\<close>

definition hypo_at ::
  "scorer \<Rightarrow> nat grid \<Rightarrow> fl grid \<Rightarrow> fl grid option \<Rightarrow> int list \<Rightarrow> nat \<Rightarrow> error + hypo" where
  "hypo_at sc tgt avg_probs yhat start_idxs i =
     (case py_index start_idxs i of
        Inl e \<Rightarrow> Inl e
      | Inr s \<Rightarrow>
          (let ref = strip_pad (py_slice_from (grid_row tgt i) s) (pad sc);
               tgt_len = length ref;
               avg_probs_i = py_slice (grid_row avg_probs i) s (s + int tgt_len);
               knn_probs_i =
                 map_option (\<lambda>y. py_slice (grid_row y i) s (s + int tgt_len)) yhat;
               score_i = fl_div (fl_sum avg_probs_i) (Fin (real tgt_len))
           in Inr \<lparr>tokens = ref, score = score_i, positional_scores = avg_probs_i,
                   knn_probs = knn_probs_i\<rparr>))"

definition build_hypos ::
  "scorer \<Rightarrow> sample \<Rightarrow> fl grid \<Rightarrow> fl grid option \<Rightarrow> error + hypo list" where
  "build_hypos sc smp avg_probs yhat =
     (let bsz = nrows avg_probs;
          start_idxs = (case start_indices smp of Some l \<Rightarrow> l | None \<Rightarrow> replicate bsz 0)
      in collect (map (hypo_at sc (target smp) avg_probs yhat start_idxs) [0..<bsz]))"

subsection \<open>generate\<close>

text \<open>
  The result is \<open>None\<close> when the call does not return, \<open>Inl\<close> the exception it raises and
  \<open>Inr\<close> the hypotheses otherwise. With no model, \<open>avg_probs\<close> is still \<open>None\<close> at
  \<open>avg_probs.size(0)\<close>.
\<close>

definition generate ::
  "scorer \<Rightarrow> 'r model list \<Rightarrow> sample \<Rightarrow> (nat grid \<Rightarrow> nat \<Rightarrow> fl grid) option \<Rightarrow> (nat \<Rightarrow> fl) \<Rightarrow>
   (error + hypo list) option" where
  "generate sc models smp knn_dstore uninit =
     (case models_loop (per_model sc (length models) knn_dstore (target smp) uninit) models
             (None, None) of
        None \<Rightarrow> None
      | Some (Inl e) \<Rightarrow> Some (Inl e)
      | Some (Inr (avg, yhat)) \<Rightarrow>
          Some (case avg of
                  None \<Rightarrow> Inl AttributeError
                | Some avg_probs \<Rightarrow>
                    build_hypos sc smp (finish_avg (length models) avg_probs) yhat))"

subsection \<open>The target probabilities, position by position\<close>

text \<open>
  For the statements about scoring: what one position contributes on its own. \<open>pick\<close> is
  the gather at one position, \<open>position_row\<close> the normalised row of one position under the
  two branches on \<open>self.coef\<close>, \<open>token_prob\<close> the entry of that row at the target id, and
  \<open>target_probs\<close> the tensor of these entries in the shape of the target.
\<close>

definition pick :: "fl list \<Rightarrow> nat \<Rightarrow> error + fl" where
  "pick r t = (if t < length r then Inr (r ! t) else Inl RuntimeError)"

definition position_row :: "scorer \<Rightarrow> 'r model \<Rightarrow> nat \<Rightarrow> 'r \<Rightarrow> error + fl list" where
  "position_row sc m n_models x =
     (case coef sc of
        None \<Rightarrow> Inr (normalized_probs m (n_models = 1) x)
      | Some c \<Rightarrow> project_row c (normalized_probs m False x))"

definition token_prob :: "scorer \<Rightarrow> 'r model \<Rightarrow> nat \<Rightarrow> 'r \<Rightarrow> nat \<Rightarrow> error + fl" where
  "token_prob sc m n_models x t =
     (case position_row sc m n_models x of Inl e \<Rightarrow> Inl e | Inr r \<Rightarrow> pick r t)"

definition target_probs :: "scorer \<Rightarrow> 'r model \<Rightarrow> nat \<Rightarrow> nat grid \<Rightarrow> error + fl grid" where
  "target_probs sc m n_models tgt =
     (case collect (map2 (token_prob sc m n_models) (cells (decoder_out0 m)) (cells tgt)) of
        Inl e \<Rightarrow> Inl e
      | Inr ps \<Rightarrow> Inr \<lparr>nrows = nrows tgt, ncols = ncols tgt, cells = ps\<rparr>)"

section \<open>Properties of the mask\<close>

lemma index_mask_length: "length (index_mask retrieved tgt) = length retrieved"
  by (simp add: index_mask_def Let_def)

lemma index_mask_nth:
  assumes "j < length retrieved"
  shows "index_mask retrieved tgt ! j = (if retrieved ! j = tgt then Fin 0 else Fin (- 10000))"
  using assms by (simp add: index_mask_def Let_def)

text \<open>
  Claim C5. The mask has the shape of the array of retrieved value ids; its entry is the
  bias 0 exactly where the retrieved value id equals the target id of the query, and the
  finite bias -10000, never minus infinity, everywhere else.
\<close>

theorem index_mask_bias:
  "length (index_mask retrieved tgt) = length retrieved \<and>
   (\<forall>j < length retrieved.
      (index_mask retrieved tgt ! j = Fin 0 \<longleftrightarrow> retrieved ! j = tgt) \<and>
      (retrieved ! j \<noteq> tgt \<longrightarrow> index_mask retrieved tgt ! j = Fin (- 10000)) \<and>
      index_mask retrieved tgt ! j \<noteq> NInf)"
  by (simp add: index_mask_length index_mask_nth)

theorem index_mask_bias_witness:
  "index_mask [5, 5, 7, 9] 5 = [Fin 0, Fin 0, Fin (- 10000), Fin (- 10000)] \<and>
   length (index_mask [5, 5, 7, 9] 5) = length [5, 5, 7, 9 :: int] \<and>
   index_mask [5, 5, 7, 9] 5 ! 2 \<noteq> NInf"
  using index_mask_bias [of "[5, 5, 7, 9]" 5]
  by (simp add: index_mask_def)

section \<open>Properties of the converter and of the aggregation\<close>

lemma fl_sum_Fin: "fl_sum (map (\<lambda>x. Fin (f x)) xs) = Fin (sum_list (map f xs))"
  by (induction xs) (simp_all add: fl_sum_def)

lemma sum_list_exp_pos: "xs \<noteq> [] \<Longrightarrow> 0 < sum_list (map (\<lambda>x. exp (f x :: real)) xs)"
proof (induction xs)
  case Nil
  then show ?case by simp
next
  case (Cons a xs)
  show ?case
  proof (cases "xs = []")
    case True
    then show ?thesis by simp
  next
    case False
    with Cons.IH have "0 < sum_list (map (\<lambda>x. exp (f x)) xs)" by simp
    then show ?thesis by (simp add: add_pos_pos)
  qed
qed

lemma logsumexp_Fin:
  assumes "xs \<noteq> []"
  shows "logsumexp (map (\<lambda>x. Fin (f x)) xs) = Fin (ln (sum_list (map (\<lambda>x. exp (f x)) xs)))"
  using sum_list_exp_pos [OF assms, of f]
  by (simp add: logsumexp_def comp_def fl_sum_Fin)

lemma log_softmax_Fin:
  assumes "xs \<noteq> []"
  shows "log_softmax (map (\<lambda>x. Fin (f x)) xs) =
         map (\<lambda>x. Fin (f x - ln (sum_list (map (\<lambda>x. exp (f x)) xs)))) xs"
  by (simp add: log_softmax_def logsumexp_Fin [OF assms] fl_sub_def)

lemma fl_mul_minus_one: "fl_mul (Fin (- 1)) d = fl_neg d"
  by (cases d) simp_all

lemma probs_row_Fin:
  assumes "ds \<noteq> []" "temp \<noteq> 0"
  shows "probs_row temp (negate_dists (map Fin ds)) =
         map (\<lambda>d. Fin (- d / temp - ln (sum_list (map (\<lambda>d. exp (- d / temp)) ds)))) ds"
proof -
  have "map (\<lambda>d. fl_div d (Fin temp)) (negate_dists (map Fin ds)) = map (\<lambda>d. Fin (- d / temp)) ds"
    using assms by (simp add: negate_dists_def)
  then show ?thesis
    using log_softmax_Fin [OF assms(1), of "\<lambda>d. - d / temp"]
    by (simp add: probs_row_def)
qed

lemma sum_list_exp_shift:
  "sum_list (map (\<lambda>r. exp (f r - c)) rs) = exp (- c) * sum_list (map (\<lambda>r. exp (f r :: real)) rs)"
  by (induction rs) (simp_all add: exp_diff exp_minus field_simps)

lemma probs_row_uniform:
  assumes "0 < temp"
  shows "probs_row temp (negate_dists (replicate k (Fin d))) = replicate k (Fin (ln (1 / real k)))"
proof (cases "k = 0")
  case True
  then show ?thesis by (simp add: probs_row_def negate_dists_def log_softmax_def)
next
  case False
  have l: "ln (real k * exp (- d / temp)) = ln (real k) + (- d / temp)"
    using False by (simp add: ln_mult)
  have "probs_row temp (negate_dists (replicate k (Fin d))) =
        replicate k (Fin (- d / temp - ln (real k * exp (- d / temp))))"
    using probs_row_Fin [of "replicate k d" temp] False assms
    by (simp add: sum_list_replicate)
  also have "\<dots> = replicate k (Fin (- d / temp - (ln (real k) + (- d / temp))))"
    unfolding l by simp
  also have "\<dots> = replicate k (Fin (ln (1 / real k)))"
    using False by (simp add: ln_div)
  finally show ?thesis .
qed

lemma index_mask_no_match:
  assumes "tgt \<notin> set retrieved"
  shows "index_mask retrieved tgt = replicate (length retrieved) (Fin (- 10000))"
  using assms by (induction retrieved) (auto simp: index_mask_def Let_def)

lemma map2_add_replicate:
  "length ds = n \<Longrightarrow>
   map2 fl_add (map (\<lambda>d. Fin (g d)) ds) (replicate n (Fin c)) = map (\<lambda>d. Fin (g d + c)) ds"
  by (induction ds arbitrary: n) auto

lemma masked_value:
  assumes "ds \<noteq> []" and "temp \<noteq> 0" and "length retrieved = length ds"
    and "tgt \<notin> set retrieved"
  shows "yhat_knn_prob (probs_row temp (negate_dists (map Fin ds))) (index_mask retrieved tgt) =
         Fin (- 10000)"
proof -
  define S where "S = sum_list (map (\<lambda>d. exp (- d / temp)) ds)"
  have Spos: "0 < S"
    unfolding S_def by (rule sum_list_exp_pos [OF assms(1)])
  have "map2 fl_add (probs_row temp (negate_dists (map Fin ds))) (index_mask retrieved tgt) =
        map (\<lambda>d. Fin ((- d / temp - ln S) + (- 10000))) ds"
    unfolding probs_row_Fin [OF assms(1,2)] index_mask_no_match [OF assms(4)] S_def [symmetric]
    by (rule map2_add_replicate) (simp add: assms(3))
  then have "yhat_knn_prob (probs_row temp (negate_dists (map Fin ds))) (index_mask retrieved tgt) =
        Fin (ln (sum_list (map (\<lambda>d. exp ((- d / temp - ln S) + (- 10000))) ds)))"
    unfolding yhat_knn_prob_def by (simp only: logsumexp_Fin [OF assms(1)])
  also have "sum_list (map (\<lambda>d. exp ((- d / temp - ln S) + (- 10000))) ds) =
             exp (- (ln S + 10000)) * S"
    using sum_list_exp_shift [of "\<lambda>d. - d / temp" "ln S + 10000" ds]
    by (simp add: S_def algebra_simps)
  also have "ln (exp (- (ln S + 10000)) * S) = - 10000"
    using Spos by (simp add: ln_mult)
  finally show ?thesis .
qed

lemma finite_list_Fin:
  assumes "list_all is_finite xs"
  shows "\<exists>ds. xs = map Fin ds"
  using assms
proof (induction xs)
  case Nil
  then show ?case by simp
next
  case (Cons a xs)
  then obtain ds where ds: "xs = map Fin ds" by auto
  from Cons.prems obtain x where x: "a = Fin x" by (cases a) auto
  have "a # xs = map Fin (x # ds)" by (simp add: ds x)
  then show ?case by (rule exI)
qed

text \<open>
  Claim C6. For a temperature above zero and \<open>k\<close> distances that are all the same (finite)
  number, the log-softmax of the negated distances over the temperature is \<open>log(1/k)\<close> at
  each of the \<open>k\<close> positions, and no entry is NaN.
\<close>

theorem converter_uniform:
  assumes "0 < temp"
  shows "probs_row temp (negate_dists (replicate k (Fin d))) = replicate k (Fin (ln (1 / real k)))
         \<and> NaN \<notin> set (probs_row temp (negate_dists (replicate k (Fin d))))"
  by (simp add: probs_row_uniform [OF assms])

theorem converter_uniform_witness:
  "probs_row 2 (negate_dists [Fin 3, Fin 3, Fin 3]) =
     [Fin (ln (1 / 3)), Fin (ln (1 / 3)), Fin (ln (1 / 3))]
   \<and> NaN \<notin> set (probs_row 2 (negate_dists [Fin 3, Fin 3, Fin 3]))"
proof -
  have r: "replicate 3 x = [x, x, x]" for x :: "'a"
    by (simp add: numeral_3_eq_3)
  have h: "(0::real) < 2" by simp
  show ?thesis
    using converter_uniform [OF h, of 3 3] by (simp add: r)
qed

text \<open>
  Claim C2. For a query whose retrieved value ids all differ from its target id, the
  aggregation of the normalised log-probabilities plus the mask is a finite number below
  -100: neither NaN nor minus infinity. The aggregation is a total function and raises
  nothing. There is at least one candidate (the source retrieves 1024), the distances are
  finite and the temperature is above zero.
\<close>

theorem masked_no_match:
  assumes "dists \<noteq> []" and "list_all is_finite dists" and "0 < temp"
    and "length retrieved = length dists" and "tgt \<notin> set retrieved"
  shows "\<exists>v. yhat_knn_prob (probs_row temp (negate_dists dists)) (index_mask retrieved tgt) = Fin v
              \<and> v < - 100"
proof -
  from finite_list_Fin [OF assms(2)] have "\<exists>ds. dists = map Fin ds" .
  then obtain ds where ds: "dists = map Fin ds" ..
  with assms have "ds \<noteq> []" "temp \<noteq> 0" "length retrieved = length ds" by auto
  from masked_value [OF this assms(5)] show ?thesis
    unfolding ds by simp
qed

theorem masked_no_match_witness:
  "\<exists>v. yhat_knn_prob (probs_row 2 (negate_dists [Fin 1, Fin 1, Fin 2, Fin 3]))
          (index_mask [5, 5, 7, 9] 4) = Fin v \<and> v < - 100"
  using masked_no_match [of "[Fin 1, Fin 1, Fin 2, Fin 3]" 2 "[5, 5, 7, 9]" 4]
  by simp

section \<open>Properties of the sweep\<close>

lemma collect_map_Inr:
  assumes "\<And>x. x \<in> set xs \<Longrightarrow> f x = Inr (g x)"
  shows "collect (map f xs) = Inr (map g xs)"
  using assms by (induction xs) simp_all

lemma np_index_in_range:
  assumes "- int (length vals) \<le> i" and "i < int (length vals)"
  shows "np_index vals i = Inr (value_at vals i)"
  using assms by (simp add: np_index_def value_at_def)

lemma lookup_vals_in_range:
  assumes "\<And>i. i \<in> set knns \<Longrightarrow> - int (length vals) \<le> i \<and> i < int (length vals)"
  shows "lookup_vals vals knns = Inr (map (value_at vals) knns)"
  unfolding lookup_vals_def
  by (rule collect_map_Inr) (simp add: np_index_in_range assms)

lemma fl_neg_add: "fl_neg (fl_add a b) = fl_add (fl_neg a) (fl_neg b)"
  by (cases a; cases b) simp_all

lemma fl_sum_negate: "fl_sum (negate_dists ds) = fl_neg (fl_sum ds)"
  by (induction ds) (simp_all add: fl_sum_def negate_dists_def fl_mul_minus_one fl_neg_add)

lemma concat_slices_take:
  "concat (map (\<lambda>b. take n (drop (b * n) xs)) [0..<m]) = take (m * n) xs"
proof (induction m)
  case 0
  then show ?case by simp
next
  case (Suc m)
  have "take (m * n) xs @ take n (drop (m * n) xs) = take (m * n + n) xs"
    by (simp add: take_add)
  with Suc show ?case by (simp add: add.commute)
qed

lemma less_div_succ_times:
  assumes "0 < (n::nat)"
  shows "k < (k div n + 1) * n"
  using assms by (metis Suc_eq_plus1 dividend_less_div_times mult.commute add.commute mult_Suc)

lemma concat_slices_all:
  assumes "0 < n"
  shows "concat (map (\<lambda>b. take n (drop (b * n) xs)) [0..<length xs div n + 1]) = xs"
proof -
  have "length xs < (length xs div n + 1) * n"
    using assms by (metis Suc_eq_plus1 dividend_less_div_times mult.commute add.commute mult_Suc)
  then show ?thesis by (simp add: concat_slices_take)
qed


lemma row_step_ok:
  assumes "ids_in_range vals res"
  shows "row_step vals temp res tgt = Inr (row_result vals temp res tgt)"
proof -
  have "lookup_vals vals (map snd res) = Inr (map (value_at vals) (map snd res))"
    using assms by (intro lookup_vals_in_range) (auto simp: ids_in_range_def list_all_iff)
  then show ?thesis
    by (simp add: row_step_def row_result_def Let_def fl_sum_negate)
qed

lemma batch_step_ok:
  assumes "\<And>q. q \<in> set qs \<Longrightarrow> ids_in_range vals (search q topk)"
  shows "batch_step vals search temp qs ts =
         Inr (map2 (\<lambda>q t. row_result vals temp (search q topk) t) qs ts)"
  unfolding batch_step_def
  by (rule collect_map_Inr) (auto simp: row_step_ok assms dest: set_zip_leftD)

lemma sweep_temp_ok:
  assumes "\<And>q. q \<in> set queries \<Longrightarrow> ids_in_range vals (search q topk)"
  shows "sweep_temp vals search queries toks temp =
         Inr \<lparr>saved_probs = map fst (map2 (\<lambda>q t. row_result vals temp (search q topk) t) queries toks),
              saved_knns = map (fst \<circ> snd) (map2 (\<lambda>q t. row_result vals temp (search q topk) t) queries toks),
              saved_dists = map (snd \<circ> snd) (map2 (\<lambda>q t. row_result vals temp (search q topk) t) queries toks)\<rparr>"
proof -
  define rows where "rows = map2 (\<lambda>q t. row_result vals temp (search q topk) t) queries toks"
  define nb where "nb = length queries div batch_size + 1"
  have len: "length rows \<le> length queries" by (simp add: rows_def)
  have b: "batch_step vals search temp (take batch_size (drop (i * batch_size) queries))
             (take batch_size (drop (i * batch_size) toks)) =
           Inr (take batch_size (drop (i * batch_size) rows))" for i
  proof -
    have "batch_step vals search temp (take batch_size (drop (i * batch_size) queries))
             (take batch_size (drop (i * batch_size) toks)) =
          Inr (map2 (\<lambda>q t. row_result vals temp (search q topk) t)
                 (take batch_size (drop (i * batch_size) queries))
                 (take batch_size (drop (i * batch_size) toks)))"
    proof (rule batch_step_ok)
      fix q assume "q \<in> set (take batch_size (drop (i * batch_size) queries))"
      then have "q \<in> set queries" by (meson in_set_takeD in_set_dropD)
      then show "ids_in_range vals (search q topk)" by (rule assms)
    qed
    also have "map2 (\<lambda>q t. row_result vals temp (search q topk) t)
                 (take batch_size (drop (i * batch_size) queries))
                 (take batch_size (drop (i * batch_size) toks)) =
               take batch_size (drop (i * batch_size) rows)"
      unfolding rows_def take_map drop_map take_zip drop_zip ..
    finally show ?thesis .
  qed
  have c: "collect (map (\<lambda>batch_idx. batch_step vals search temp
                     (take batch_size (drop (batch_idx * batch_size) queries))
                     (take batch_size (drop (batch_idx * batch_size) toks))) [0..<nb]) =
           Inr (map (\<lambda>i. take batch_size (drop (i * batch_size) rows)) [0..<nb])"
    by (rule collect_map_Inr) (rule b)
  have "length rows < nb * batch_size"
  proof -
    have "length queries < nb * batch_size"
      unfolding nb_def by (rule less_div_succ_times) (simp add: batch_size_def)
    with len show ?thesis by simp
  qed
  then have all: "concat (map (\<lambda>i. take batch_size (drop (i * batch_size) rows)) [0..<nb]) = rows"
    by (simp add: concat_slices_take)
  have "sweep_temp vals search queries toks temp =
        Inr \<lparr>saved_probs = map fst rows, saved_knns = map (fst \<circ> snd) rows,
             saved_dists = map (snd \<circ> snd) rows\<rparr>"
    unfolding sweep_temp_def Let_def nb_def [symmetric] c
    by (simp only: sum.case map_concat [symmetric] all)
  then show ?thesis by (simp only: rows_def)
qed

lemma unit_search_sum:
  "fl_sum (map fst (map (\<lambda>i. (Fin 1, int i)) [0..<k])) = Fin (real k)"
proof -
  have "map fst (map (\<lambda>i. (Fin 1, int i)) [0..<k]) = map (\<lambda>i. Fin 1) [0..<k]"
    by simp
  moreover have "fl_sum (map (\<lambda>i. Fin 1) [0..<k]) = Fin (real k)"
    using fl_sum_Fin [of "\<lambda>i. 1" "[0..<k]"] by (simp add: sum_list_triv)
  ultimately show ?thesis by (simp only:)
qed

lemma unit_search_in_range:
  "ids_in_range (replicate topk v) (map (\<lambda>i. (Fin 1, int i)) [0..<topk])"
  by (simp add: ids_in_range_def list_all_iff)

text \<open>
  Claim C8, as the code has it. For every temperature of the sweep the script saves three
  arrays that follow the order of the queries: the aggregated retrieval log-probability
  of each query, the row of neighbour ids of each query, and for each query the sum of
  its negated distances, which is minus the sum of the distances that the search
  returned. The two loaded arrays have one length and the ids lie within the datastore.
\<close>

theorem sweep_outputs:
  assumes "length queries = length toks"
    and "list_all (\<lambda>q. ids_in_range vals (search q topk)) queries"
  shows "sweep vals search queries toks temps =
         Inr (map (\<lambda>temp.
                (temp,
                 \<lparr>saved_probs =
                    map2 (\<lambda>q t. yhat_knn_prob (probs_row temp (negate_dists (map fst (search q topk))))
                                  (index_mask (map (value_at vals) (map snd (search q topk))) t))
                      queries toks,
                  saved_knns = map (\<lambda>q. map snd (search q topk)) queries,
                  saved_dists = map (\<lambda>q. fl_neg (fl_sum (map fst (search q topk)))) queries\<rparr>))
              temps)"
proof -
  have ok: "ids_in_range vals (search q topk)" if "q \<in> set queries" for q
    using assms(2) that by (simp add: list_all_iff)
  have k: "map (fst \<circ> snd) (map2 (\<lambda>q t. row_result vals temp (search q topk) t) queries toks) =
           map (\<lambda>q. map snd (search q topk)) queries" for temp
    using assms(1)
    by (induction queries toks rule: list_induct2) (simp_all add: row_result_def)
  have d: "map (snd \<circ> snd) (map2 (\<lambda>q t. row_result vals temp (search q topk) t) queries toks) =
           map (\<lambda>q. fl_neg (fl_sum (map fst (search q topk)))) queries" for temp
    using assms(1)
    by (induction queries toks rule: list_induct2) (simp_all add: row_result_def)
  have p: "map fst (map2 (\<lambda>q t. row_result vals temp (search q topk) t) queries toks) =
           map2 (\<lambda>q t. yhat_knn_prob (probs_row temp (negate_dists (map fst (search q topk))))
                         (index_mask (map (value_at vals) (map snd (search q topk))) t))
             queries toks" for temp
    by (simp add: row_result_def case_prod_unfold)
  note st = sweep_temp_ok [where queries = queries and vals = vals and search = search, OF ok]
  have "sweep vals search queries toks temps =
        collect (map (\<lambda>temp. case sweep_temp vals search queries toks temp of
                                Inl e \<Rightarrow> Inl e
                              | Inr out \<Rightarrow> Inr (temp, out)) temps)"
    using assms(1) by (simp add: sweep_def)
  also have "\<dots> = Inr (map (\<lambda>temp.
                (temp,
                 \<lparr>saved_probs =
                    map2 (\<lambda>q t. yhat_knn_prob (probs_row temp (negate_dists (map fst (search q topk))))
                                  (index_mask (map (value_at vals) (map snd (search q topk))) t))
                      queries toks,
                  saved_knns = map (\<lambda>q. map snd (search q topk)) queries,
                  saved_dists = map (\<lambda>q. fl_neg (fl_sum (map fst (search q topk)))) queries\<rparr>))
              temps)"
    by (rule collect_map_Inr) (simp only: st sum.case k d p)
  finally show ?thesis .
qed

theorem sweep_outputs_witness:
  "map_sum id (map (\<lambda>(temp, out). (temp, saved_knns out, saved_dists out)))
     (sweep (replicate 1024 5) (\<lambda>q k. map (\<lambda>i. (Fin 1, int i)) [0..<k]) [0 :: nat] [5] [2]) =
   Inr [(2, [map int [0..<1024]], [Fin (- 1024)])]"
proof -
  have r: "list_all (\<lambda>q. ids_in_range (replicate 1024 5)
             ((\<lambda>q k. map (\<lambda>i. (Fin 1, int i)) [0..<k]) q topk)) [0 :: nat]"
    using unit_search_in_range [of 5] by (simp add: topk_def)
  have l: "length [0 :: nat] = length [5 :: int]" by simp
  show ?thesis
    unfolding sweep_outputs
      [where search = "\<lambda>q k. map (\<lambda>i. (Fin 1, int i)) [0..<k]" and vals = "replicate 1024 5"
         and temps = "[2]", OF l r]
    using unit_search_sum [of topk] by (simp add: topk_def comp_def)
qed


text \<open>
  The saved entry is not the sum of the distances that the search returned: for 1024
  neighbours at the distance 1 it is -1024, where the sum of the distances is 1024.
\<close>

theorem saved_dists_counterexample:
  "map_sum id saved_dists
     (sweep_temp (replicate 1024 5) (\<lambda>q k. map (\<lambda>i. (Fin 1, int i)) [0..<k]) [0 :: nat] [5] 2) =
     Inr [Fin (- 1024)]
   \<and> fl_sum (map fst (map (\<lambda>i. (Fin 1, int i)) [0..<1024])) = Fin 1024"
proof -
  have "ids_in_range (replicate 1024 5) (map (\<lambda>i. (Fin 1, int i)) [0..<topk])"
    using unit_search_in_range [of 5] by (simp add: topk_def)
  then have "sweep_temp (replicate 1024 5) (\<lambda>q k. map (\<lambda>i. (Fin 1, int i)) [0..<k]) [0 :: nat] [5] 2 =
     Inr \<lparr>saved_probs = map fst (map2 (\<lambda>q t. row_result (replicate 1024 5) 2
                 (map (\<lambda>i. (Fin 1, int i)) [0..<topk]) t) [0 :: nat] [5]),
          saved_knns = map (fst \<circ> snd) (map2 (\<lambda>q t. row_result (replicate 1024 5) 2
                 (map (\<lambda>i. (Fin 1, int i)) [0..<topk]) t) [0 :: nat] [5]),
          saved_dists = map (snd \<circ> snd) (map2 (\<lambda>q t. row_result (replicate 1024 5) 2
                 (map (\<lambda>i. (Fin 1, int i)) [0..<topk]) t) [0 :: nat] [5])\<rparr>"
    by (intro sweep_temp_ok) simp
  moreover have "fl_sum (map fst (map (\<lambda>i. (Fin 1, int i)) [0..<topk])) = Fin (real topk)"
    by (rule unit_search_sum)
  ultimately show ?thesis
    by (simp add: row_result_def topk_def comp_def)
qed

section \<open>Properties of the scorer\<close>

lemma init_zero:
  "SequenceScorer_init p (Some 0) c l =
     Inr \<lparr>pad = p, softmax_batch = sys_maxsize, coef = c, lmbda = l\<rparr>"
  by (simp add: SequenceScorer_init_def sys_maxsize_def)

lemma init_fails_iff:
  "SequenceScorer_init p sb c l = Inl AssertionError \<longleftrightarrow> (\<exists>n. sb = Some n \<and> n < 0)"
  by (cases sb) (auto simp: SequenceScorer_init_def sys_maxsize_def Let_def)

lemma init_positive:
  "SequenceScorer_init p sb c l = Inr sc \<Longrightarrow> 0 < softmax_batch sc"
  by (auto simp: SequenceScorer_init_def Let_def split: if_splits)

lemma single_shot:
  assumes "int (nrows first * ncols first) < softmax_batch sc"
  shows "batch_for_softmax sc first tgt = Some (Inr [(first, tgt, True)])"
  using assms by (simp add: batch_for_softmax_def Let_def)

text \<open>
  Claim C10. A scorer built with \<open>softmax_batch = 0\<close> passes the assertion: the value is
  replaced by \<open>sys.maxsize\<close>, and scoring then takes the single-shot branch for every
  decoder output with fewer than \<open>sys.maxsize\<close> positions, which is every tensor that fits
  in memory. The assertion fails for negative values only.
\<close>

theorem softmax_batch_zero:
  assumes "int (nrows first * ncols first) < sys_maxsize"
  shows "(\<exists>sc. SequenceScorer_init p (Some 0) c l = Inr sc \<and> softmax_batch sc = sys_maxsize
              \<and> batch_for_softmax sc first tgt = Some (Inr [(first, tgt, True)]))
         \<and> (\<forall>sb. SequenceScorer_init p sb c l = Inl AssertionError \<longleftrightarrow> (\<exists>n. sb = Some n \<and> n < 0))"
  using assms by (simp add: init_zero init_fails_iff single_shot)

theorem softmax_batch_zero_witness:
  "SequenceScorer_init 1 (Some 0) None (1 / 4) =
     Inr \<lparr>pad = 1, softmax_batch = sys_maxsize, coef = None, lmbda = 1 / 4\<rparr>
   \<and> batch_for_softmax \<lparr>pad = 1, softmax_batch = sys_maxsize, coef = None, lmbda = 1 / 4\<rparr>
        \<lparr>nrows = 2, ncols = 3, cells = [10, 11, 12, 13, 14, 15 :: nat]\<rparr>
        \<lparr>nrows = 2, ncols = 3, cells = [4, 5, 6, 7, 8, 9]\<rparr> =
      Some (Inr [(\<lparr>nrows = 2, ncols = 3, cells = [10, 11, 12, 13, 14, 15]\<rparr>,
                  \<lparr>nrows = 2, ncols = 3, cells = [4, 5, 6, 7, 8, 9]\<rparr>, True)])
   \<and> SequenceScorer_init 1 (Some (- 1)) None (1 / 4) = Inl AssertionError"
  using softmax_batch_zero [of "\<lparr>nrows = 2, ncols = 3, cells = [10, 11, 12, 13, 14, 15 :: nat]\<rparr>"
      1 None "1 / 4" "\<lparr>nrows = 2, ncols = 3, cells = [4, 5, 6, 7, 8, 9]\<rparr>"]
  by (auto simp: sys_maxsize_def SequenceScorer_init_def)

section \<open>Chunked and single-shot scoring\<close>

lemma collect_append:
  "collect (xs @ ys) =
     (case collect xs of
        Inl e \<Rightarrow> Inl e
      | Inr a \<Rightarrow> (case collect ys of Inl e \<Rightarrow> Inl e | Inr b \<Rightarrow> Inr (a @ b)))"
  by (induction xs) (auto split: sum.splits)

lemma collect_length: "collect xs = Inr ys \<Longrightarrow> length ys = length xs"
  by (induction xs arbitrary: ys) (auto split: sum.splits)

lemma collect_Inl_mem: "collect xs = Inl e \<Longrightarrow> Inl e \<in> set xs"
  by (induction xs) (auto split: sum.splits)

lemma project_row_error: "project_row c p = Inl e \<Longrightarrow> e = RuntimeError"
  by (auto simp: project_row_def split: if_splits)

lemma position_row_error: "position_row sc m n x = Inl e \<Longrightarrow> e = RuntimeError"
  by (auto simp: position_row_def split: option.splits dest: project_row_error)

lemma two_phase:
  assumes "\<And>x e. g x = Inl e \<Longrightarrow> e = RuntimeError" and "length xs = length ts"
  shows "(case collect (map g xs) of Inl e \<Rightarrow> Inl e | Inr rows \<Rightarrow> collect (map2 pick rows ts)) =
         collect (map2 (\<lambda>x t. case g x of Inl e \<Rightarrow> Inl e | Inr r \<Rightarrow> pick r t) xs ts)"
  using assms(2)
proof (induction xs ts rule: list_induct2)
  case Nil
  then show ?case by simp
next
  case (Cons x xs t ts)
  show ?case
  proof (cases "g x")
    case (Inl e)
    then show ?thesis by simp
  next
    case (Inr r)
    show ?thesis
    proof (cases "collect (map g xs)")
      case (Inl e')
      then have "Inl e' \<in> set (map g xs)" by (rule collect_Inl_mem)
      then have e': "e' = RuntimeError" using assms(1) by (auto simp: image_iff)
      have "pick r t = Inl RuntimeError \<or> (\<exists>v. pick r t = Inr v)"
        by (simp add: pick_def)
      moreover from Cons.IH Inl
      have "collect (map2 (\<lambda>x t. case g x of Inl e \<Rightarrow> Inl e | Inr r \<Rightarrow> pick r t) xs ts) = Inl e'"
        by simp
      ultimately show ?thesis using Inl Inr e' by auto
    next
      case (Inr rows)
      with Cons.IH \<open>g x = Inr r\<close> show ?thesis by (simp split: sum.splits)
    qed
  qed
qed


lemma gather_pick:
  "gather_target_probs probs tgt =
     (if nrows probs \<noteq> nrows tgt \<or> ncols probs \<noteq> ncols tgt
         \<or> length (cells probs) \<noteq> length (cells tgt)
      then Inl RuntimeError
      else case collect (map2 pick (cells probs) (cells tgt)) of
             Inl e \<Rightarrow> Inl e
           | Inr ps \<Rightarrow> Inr \<lparr>nrows = nrows tgt, ncols = ncols tgt, cells = ps\<rparr>)"
  by (simp add: gather_target_probs_def pick_def [abs_def])

lemma curr_prob_rows:
  assumes "coef sc = None \<or> nrows bd = 1"
  shows "curr_prob_of sc m n bd =
         (case collect (map (position_row sc m n) (cells bd)) of
            Inl e \<Rightarrow> Inl e
          | Inr rows \<Rightarrow> Inr \<lparr>nrows = nrows bd, ncols = ncols bd, cells = rows\<rparr>)"
proof (cases "coef sc")
  case None
  have "collect (map (\<lambda>x. Inr (normalized_probs m (n = 1) x)) (cells bd)) =
        Inr (map (normalized_probs m (n = 1)) (cells bd))"
    by (rule collect_map_Inr) simp
  with None show ?thesis
    by (simp add: curr_prob_of_def position_row_def [abs_def] map_cells_def)
next
  case (Some c)
  with assms have "nrows bd = 1" by simp
  with Some show ?thesis
    by (simp add: curr_prob_of_def position_row_def [abs_def] map_cells_def Let_def comp_def
        split: sum.splits)
qed

lemma score_cells:
  assumes "coef sc = None \<or> nrows bd = 1"
    and "nrows bd = nrows tg" and "ncols bd = ncols tg"
    and "length (cells bd) = length (cells tg)"
  shows "(case curr_prob_of sc m n bd of Inl e \<Rightarrow> Inl e | Inr cp \<Rightarrow> gather_target_probs cp tg) =
         (case collect (map2 (token_prob sc m n) (cells bd) (cells tg)) of
            Inl e \<Rightarrow> Inl e
          | Inr ps \<Rightarrow> Inr \<lparr>nrows = nrows tg, ncols = ncols tg, cells = ps\<rparr>)"
proof -
  have tp: "collect (map2 (token_prob sc m n) (cells bd) (cells tg)) =
        (case collect (map (position_row sc m n) (cells bd)) of
           Inl e \<Rightarrow> Inl e
         | Inr rows \<Rightarrow> collect (map2 pick rows (cells tg)))"
    unfolding token_prob_def [abs_def]
    by (rule two_phase [symmetric]) (auto dest: position_row_error simp: assms(4))
  show ?thesis
  proof (cases "collect (map (position_row sc m n) (cells bd))")
    case (Inl e)
    then show ?thesis by (simp add: curr_prob_rows [OF assms(1)] tp)
  next
    case (Inr rows)
    then have "length rows = length (cells tg)"
      using collect_length [OF Inr] assms(4) by simp
    with Inr show ?thesis
      by (simp add: curr_prob_rows [OF assms(1)] tp gather_pick assms(2,3))
  qed
qed

lemma curr_prob_shape:
  assumes "curr_prob_of sc m n bd = Inr cp"
  shows "nrows cp = nrows bd \<and> ncols cp = ncols bd"
  using assms
  by (auto simp: curr_prob_of_def map_cells_def Let_def split: option.splits if_splits sum.splits)

lemma py_slice_nat:
  "py_slice xs (int s) (int s + int k) = take k (drop s xs)"
  by (auto simp: py_slice_def py_clip_def Let_def min_def nat_add_distrib)


lemma score_chunk_piece:
  assumes "length xs = length ts"
  shows "score_chunk sc m n orig uninit (chunk xs, chunk ts, False) (pr, idx) =
     (case collect (map2 (token_prob sc m n) xs ts) of
        Inl e \<Rightarrow> Inl e
      | Inr ps \<Rightarrow>
          (case assign_slice
                  (case pr of None \<Rightarrow> map uninit [0..<nrows orig * ncols orig] | Some b \<Rightarrow> b)
                  idx (length xs + idx) ps of
             Inl e \<Rightarrow> Inl e
           | Inr b \<Rightarrow> Inr (Some b, length xs + idx)))"
proof -
  have sc: "(case curr_prob_of sc m n (chunk xs) of
               Inl e \<Rightarrow> Inl e | Inr cp \<Rightarrow> gather_target_probs cp (chunk ts)) =
            (case collect (map2 (token_prob sc m n) xs ts) of
               Inl e \<Rightarrow> Inl e
             | Inr ps \<Rightarrow> Inr \<lparr>nrows = 1, ncols = length ts, cells = ps\<rparr>)"
    using score_cells [of sc "chunk xs" "chunk ts" m n] assms
    by (simp add: chunk_def split: sum.splits)
  show ?thesis
  proof (cases "curr_prob_of sc m n (chunk xs)")
    case (Inl e)
    with sc show ?thesis
      by (auto simp: score_chunk_def split: sum.splits)
  next
    case (Inr cp)
    from curr_prob_shape [OF Inr] have "nrows cp * ncols cp = length xs"
      by (simp add: chunk_def)
    with sc Inr show ?thesis
      by (auto simp: score_chunk_def Let_def split: sum.splits)
  qed
qed

lemma assign_slice_fits:
  assumes "idx + length v \<le> length buf"
  shows "assign_slice buf idx (length v + idx) v =
         Inr (take idx buf @ v @ drop (idx + length v) buf)"
  using assms by (simp add: assign_slice_def Let_def min_def max_def add.commute)

lemma chunk_loop:
  fixes cf :: "'r list" and m :: "'r model"
  assumes k: "0 < k" and lf: "length cf = N" and lt: "length ct = N"
    and orig: "nrows orig * ncols orig = N"
  shows "s < N \<Longrightarrow>
         length (case pr of None \<Rightarrow> map uninit [0..<nrows orig * ncols orig] | Some b \<Rightarrow> b) = N \<Longrightarrow>
         \<exists>batched. slices (int k) N cf ct (int s) = Some batched
           \<and> list_all (\<lambda>x. \<not> snd (snd x)) batched
           \<and> fold_err (score_chunk sc m n orig uninit) batched (pr, s) =
               (case collect (drop s (map2 (token_prob sc m n) cf ct)) of
                  Inl e \<Rightarrow> Inl e
                | Inr vs \<Rightarrow>
                    Inr (Some (take s (case pr of
                                         None \<Rightarrow> map uninit [0..<nrows orig * ncols orig]
                                       | Some b \<Rightarrow> b) @ vs), N))"
proof (induction "N - s" arbitrary: s pr rule: less_induct)
  case less
  define buf where "buf = (case pr of None \<Rightarrow> map uninit [0..<nrows orig * ncols orig] | Some b \<Rightarrow> b)"
  define picks where "picks = map2 (token_prob sc m n) cf ct"
  define xs where "xs = take k (drop s cf)"
  define ts where "ts = take k (drop s ct)"
  have lbuf: "length buf = N" using less.prems(2) by (simp add: buf_def)
  have lx: "length xs = min k (N - s)" "length ts = min k (N - s)"
    by (simp_all add: xs_def ts_def lf lt)
  have here: "map2 (token_prob sc m n) xs ts = take k (drop s picks)"
    by (simp add: xs_def ts_def picks_def take_map drop_map take_zip drop_zip)
  have split: "drop s picks = take k (drop s picks) @ drop (s + k) picks"
    by (metis append_take_drop_id drop_drop add.commute)
  have step: "score_chunk sc m n orig uninit (chunk xs, chunk ts, False) (pr, s) =
     (case collect (take k (drop s picks)) of
        Inl e \<Rightarrow> Inl e
      | Inr ps \<Rightarrow> Inr (Some (take s buf @ ps @ drop (s + length xs) buf), length xs + s))"
  proof (cases "collect (take k (drop s picks))")
    case (Inl e)
    then show ?thesis
      using score_chunk_piece [of xs ts sc m n orig uninit pr s] lx by (simp add: here)
  next
    case (Inr ps)
    from collect_length [OF Inr] have lps: "length ps = length xs"
      by (simp add: here [symmetric] lx)
    have "s + length ps \<le> length buf"
      using less.prems(1) by (simp add: lps lx lbuf)
    from assign_slice_fits [OF this] Inr show ?thesis
      using score_chunk_piece [of xs ts sc m n orig uninit pr s] lx
      by (simp add: here lps buf_def)
  qed
  have unfold: "slices (int k) N cf ct (int s) =
        Option.bind (slices (int k) N cf ct (int (s + k)))
          (\<lambda>more. Some ((chunk xs, chunk ts, False) # more))"
    using less.prems(1)
    by (subst slices.simps) (simp add: py_slice_nat xs_def ts_def)
  have ih: "\<exists>batched. slices (int k) N cf ct (int (s + k)) = Some batched
              \<and> list_all (\<lambda>x. \<not> snd (snd x)) batched
              \<and> fold_err (score_chunk sc m n orig uninit) batched (pr', s + k) =
                  (case collect (drop (s + k) picks) of
                     Inl e \<Rightarrow> Inl e
                   | Inr vs \<Rightarrow>
                       Inr (Some (take (s + k)
                                   (case pr' of
                                      None \<Rightarrow> map uninit [0..<nrows orig * ncols orig]
                                    | Some b \<Rightarrow> b) @ vs), N))"
    if "s + k < N"
      and "length (case pr' of None \<Rightarrow> map uninit [0..<nrows orig * ncols orig] | Some b \<Rightarrow> b) = N"
    for pr'
    unfolding picks_def
  proof (rule less.hyps)
    show "N - (s + k) < N - s" using that(1) k by simp
    show "s + k < N" by (rule that(1))
    show "length (case pr' of None \<Rightarrow> map uninit [0..<nrows orig * ncols orig] | Some b \<Rightarrow> b) = N"
      by (rule that(2))
  qed
  show ?case
  proof (cases "s + k < N")
    case False
    then have stop: "slices (int k) N cf ct (int (s + k)) = Some []"
      by (subst slices.simps) simp
    from False have lxs: "length xs = N - s" by (simp add: lx)
    from False have "drop (s + k) picks = []" by (simp add: picks_def lf lt)
    with split have all: "drop s picks = take k (drop s picks)" by simp
    have "fold_err (score_chunk sc m n orig uninit) [(chunk xs, chunk ts, False)] (pr, s) =
          (case collect (drop s picks) of
             Inl e \<Rightarrow> Inl e
           | Inr vs \<Rightarrow> Inr (Some (take s buf @ vs), N))"
      using less.prems(1) by (simp add: step all [symmetric] lxs lbuf split: sum.splits)
    then show ?thesis
      unfolding unfold stop buf_def picks_def by simp
  next
    case True
    then have lxs: "length xs = k" by (simp add: lx)
    show ?thesis
    proof (cases "collect (take k (drop s picks))")
      case (Inl e)
      from ih [OF True less.prems(2)]
      obtain batched where b: "slices (int k) N cf ct (int (s + k)) = Some batched"
        and f: "list_all (\<lambda>x. \<not> snd (snd x)) batched" by blast
      have "collect (drop s picks) = Inl e"
        by (subst split) (simp add: collect_append Inl)
      then show ?thesis
        unfolding unfold b buf_def [symmetric] picks_def [symmetric]
        using f by (simp add: step Inl)
    next
      case (Inr ps)
      from collect_length [OF Inr] have lps: "length ps = k"
        using lxs by (simp add: here [symmetric] lx)
      define buf' where "buf' = take s buf @ ps @ drop (s + k) buf"
      have lbuf': "length buf' = N"
        using True by (simp add: buf'_def lbuf lps)
      from ih [of "Some buf'", unfolded option.case, OF True lbuf']
      obtain batched where b: "slices (int k) N cf ct (int (s + k)) = Some batched"
        and f: "list_all (\<lambda>x. \<not> snd (snd x)) batched"
        and r: "fold_err (score_chunk sc m n orig uninit) batched (Some buf', s + k) =
                  (case collect (drop (s + k) picks) of
                     Inl e \<Rightarrow> Inl e
                   | Inr vs \<Rightarrow> Inr (Some (take (s + k) buf' @ vs), N))" by blast
      have tk: "take (s + k) buf' = take s buf @ ps"
        using less.prems(1) by (simp add: buf'_def lbuf lps)
      have cs: "collect (drop s picks) =
            (case collect (drop (s + k) picks) of Inl e \<Rightarrow> Inl e | Inr b \<Rightarrow> Inr (ps @ b))"
        by (subst split) (simp add: collect_append Inr)
      have "score_chunk sc m n orig uninit (chunk xs, chunk ts, False) (pr, s) =
            Inr (Some buf', s + k)"
        by (simp add: step Inr lxs buf'_def add.commute)
      then have "fold_err (score_chunk sc m n orig uninit) ((chunk xs, chunk ts, False) # batched)
                   (pr, s) =
                 fold_err (score_chunk sc m n orig uninit) batched (Some buf', s + k)"
        by simp
      also note r
      also have "(case collect (drop (s + k) picks) of
                    Inl e \<Rightarrow> Inl e
                  | Inr vs \<Rightarrow> Inr (Some (take (s + k) buf' @ vs), N)) =
                 (case collect (drop s picks) of
                    Inl e \<Rightarrow> Inl e
                  | Inr vs \<Rightarrow> Inr (Some (take s buf @ vs), N))"
        by (simp add: cs tk split: sum.splits)
      finally show ?thesis
        unfolding unfold b buf_def [symmetric] picks_def [symmetric]
        using f by simp
    qed
  qed
qed


lemma chunk_loop_start:
  fixes cf :: "'r list" and m :: "'r model"
  assumes "0 < k" and "length cf = N" and "length ct = N"
    and "nrows orig * ncols orig = N" and "0 < N"
  shows "\<exists>batched. slices (int k) N cf ct 0 = Some batched
           \<and> list_all (\<lambda>x. \<not> snd (snd x)) batched
           \<and> fold_err (score_chunk sc m n orig uninit) batched (None, 0) =
               (case collect (map2 (token_prob sc m n) cf ct) of
                  Inl e \<Rightarrow> Inl e
                | Inr vs \<Rightarrow> Inr (Some vs, N))"
proof -
  have "length (case None of None \<Rightarrow> map uninit [0..<nrows orig * ncols orig] | Some b \<Rightarrow> b) = N"
    by (simp add: assms(4))
  from chunk_loop [OF assms(1-4) assms(5) this, of sc m n]
  show ?thesis
    unfolding option.case take_0 append_Nil drop_0 by simp
qed

lemma target_probs_limit [simp]:
  "target_probs (sc\<lparr>softmax_batch := b\<rparr>) m n tgt = target_probs sc m n tgt"
  by (simp add: target_probs_def token_prob_def [abs_def] position_row_def [abs_def])

lemma score_model_chunked:
  fixes m :: "'r model"
  assumes pos: "0 < softmax_batch sc"
    and big: "softmax_batch sc \<le> int (nrows (decoder_out0 m) * ncols (decoder_out0 m))"
    and wf: "length (cells (decoder_out0 m)) = nrows (decoder_out0 m) * ncols (decoder_out0 m)"
    and wt: "length (cells tgt) = nrows tgt * ncols tgt"
    and same: "nrows tgt * ncols tgt = nrows (decoder_out0 m) * ncols (decoder_out0 m)"
  shows "score_model sc m n tgt uninit = Some (target_probs sc m n tgt)
         \<and> (\<exists>batched. batch_for_softmax sc (decoder_out0 m) tgt = Some (Inr batched)
               \<and> list_all (\<lambda>x. \<not> snd (snd x)) batched)"
proof -
  define N where "N = nrows (decoder_out0 m) * ncols (decoder_out0 m)"
  define k where "k = nat (softmax_batch sc)"
  have k: "0 < k" "int k = softmax_batch sc" using pos by (simp_all add: k_def)
  have "0 < int N" using pos big unfolding N_def by linarith
  then have N: "0 < N" by simp
  from chunk_loop_start [OF k(1) _ _ _ N, of "cells (decoder_out0 m)" "cells tgt" tgt sc m n uninit]
  obtain batched where b: "slices (int k) N (cells (decoder_out0 m)) (cells tgt) 0 = Some batched"
    and f: "list_all (\<lambda>x. \<not> snd (snd x)) batched"
    and r: "fold_err (score_chunk sc m n tgt uninit) batched (None, 0) =
            (case collect (map2 (token_prob sc m n) (cells (decoder_out0 m)) (cells tgt)) of
               Inl e \<Rightarrow> Inl e
             | Inr vs \<Rightarrow> Inr (Some vs, N))"
    using wf wt same unfolding N_def by metis
  have bfs: "batch_for_softmax sc (decoder_out0 m) tgt = Some (Inr batched)"
    using big b unfolding N_def
    by (simp add: batch_for_softmax_def Let_def same k(2) del: of_nat_mult)
  have "score_model sc m n tgt uninit = Some (target_probs sc m n tgt)"
  proof (cases "collect (map2 (token_prob sc m n) (cells (decoder_out0 m)) (cells tgt))")
    case (Inl e)
    then show ?thesis by (simp add: score_model_def bfs r target_probs_def)
  next
    case (Inr vs)
    from collect_length [OF Inr] have "length vs = nrows tgt * ncols tgt"
      by (simp add: wf wt same)
    with Inr show ?thesis
      by (simp add: score_model_def bfs r target_probs_def view_as_def)
  qed
  with bfs f show ?thesis by blast
qed

lemma score_model_single:
  fixes m :: "'r model"
  assumes lim: "int (nrows (decoder_out0 m) * ncols (decoder_out0 m)) < softmax_batch sc"
    and proj: "coef sc = None \<or> nrows (decoder_out0 m) = 1"
    and wf: "length (cells (decoder_out0 m)) = nrows (decoder_out0 m) * ncols (decoder_out0 m)"
    and wt: "length (cells tgt) = nrows tgt * ncols tgt"
    and shape: "nrows (decoder_out0 m) = nrows tgt" "ncols (decoder_out0 m) = ncols tgt"
  shows "score_model sc m n tgt uninit = Some (target_probs sc m n tgt)"
proof -
  have len: "length (cells (decoder_out0 m)) = length (cells tgt)"
    by (simp add: wf wt shape)
  note sc = score_cells [OF proj shape len, of m n]
  show ?thesis
  proof (cases "collect (map2 (token_prob sc m n) (cells (decoder_out0 m)) (cells tgt))")
    case (Inl e)
    with sc show ?thesis
      using lim
      by (auto simp: score_model_def single_shot score_chunk_def target_probs_def
          split: sum.splits)
  next
    case (Inr vs)
    from collect_length [OF Inr] have "length vs = nrows tgt * ncols tgt"
      by (simp add: wf wt shape)
    with Inr sc show ?thesis
      using lim
      by (auto simp: score_model_def single_shot score_chunk_def target_probs_def view_as_def
          split: sum.splits)
  qed
qed

text \<open>
  Claim C3, as the code has it. For a decoder output and a target of one shape, scoring
  with a limit at or below the number of positions (the chunked branch) and scoring with
  a limit above it (the single-shot branch) both return the tensor of the target
  probabilities, position by position, whatever the uninitialised buffer held, when no
  projection matrix is configured or the batch has one sequence. The branch is chosen
  once: the chunked generator yields only slices, the single-shot one yields the whole
  batch once.
\<close>

theorem chunked_equals_single_shot:
  fixes m :: "'r model"
  assumes wf: "wf_grid (decoder_out0 m)" "wf_grid tgt"
    and shape: "nrows (decoder_out0 m) = nrows tgt" "ncols (decoder_out0 m) = ncols tgt"
    and small: "0 < small" "small \<le> int (nrows tgt * ncols tgt)"
    and large: "int (nrows tgt * ncols tgt) < large"
    and proj: "coef sc = None \<or> nrows tgt = 1"
  shows "score_model (sc\<lparr>softmax_batch := small\<rparr>) m n tgt u1 = Some (target_probs sc m n tgt)
     \<and> score_model (sc\<lparr>softmax_batch := large\<rparr>) m n tgt u2 = Some (target_probs sc m n tgt)
     \<and> (\<exists>batched. batch_for_softmax (sc\<lparr>softmax_batch := small\<rparr>) (decoder_out0 m) tgt =
                     Some (Inr batched)
            \<and> list_all (\<lambda>(bd, t, is_single). \<not> is_single) batched)
     \<and> batch_for_softmax (sc\<lparr>softmax_batch := large\<rparr>) (decoder_out0 m) tgt =
         Some (Inr [(decoder_out0 m, tgt, True)])"
proof -
  have lf: "length (cells (decoder_out0 m)) = nrows (decoder_out0 m) * ncols (decoder_out0 m)"
    and lt: "length (cells tgt) = nrows tgt * ncols tgt"
    using wf by (simp_all add: wf_grid_def)
  have c: "score_model (sc\<lparr>softmax_batch := small\<rparr>) m n tgt u1 =
             Some (target_probs (sc\<lparr>softmax_batch := small\<rparr>) m n tgt)
           \<and> (\<exists>batched. batch_for_softmax (sc\<lparr>softmax_batch := small\<rparr>) (decoder_out0 m) tgt =
                     Some (Inr batched)
                \<and> list_all (\<lambda>x. \<not> snd (snd x)) batched)"
    by (rule score_model_chunked) (use small in \<open>simp_all add: shape lf lt\<close>)
  have s: "score_model (sc\<lparr>softmax_batch := large\<rparr>) m n tgt u2 =
             Some (target_probs (sc\<lparr>softmax_batch := large\<rparr>) m n tgt)"
    by (rule score_model_single) (use proj large in \<open>simp_all add: shape lf lt\<close>)
  have b: "batch_for_softmax (sc\<lparr>softmax_batch := large\<rparr>) (decoder_out0 m) tgt =
           Some (Inr [(decoder_out0 m, tgt, True)])"
    by (rule single_shot) (use large in \<open>simp add: shape\<close>)
  have f: "(\<lambda>x. \<not> snd (snd x)) = (\<lambda>(bd :: 'r grid, t :: nat grid, is_single). \<not> is_single)"
    by auto
  from c s b show ?thesis
    unfolding f by simp
qed

theorem chunked_equals_single_shot_witness:
  "score_model \<lparr>pad = 9, softmax_batch = 3, coef = None, lmbda = 1 / 2\<rparr>
     \<lparr>decoder_out0 = \<lparr>nrows = 2, ncols = 2, cells = [0, 1, 2, 3 :: nat]\<rparr>,
      normalized_probs = (\<lambda>lg x. [Fin (real x), Fin 1])\<rparr>
     1 \<lparr>nrows = 2, ncols = 2, cells = [0, 1, 0, 1]\<rparr> (\<lambda>i. NaN) =
   Some (Inr \<lparr>nrows = 2, ncols = 2, cells = [Fin 0, Fin 1, Fin 2, Fin 1]\<rparr>)
   \<and> score_model \<lparr>pad = 9, softmax_batch = 5, coef = None, lmbda = 1 / 2\<rparr>
     \<lparr>decoder_out0 = \<lparr>nrows = 2, ncols = 2, cells = [0, 1, 2, 3 :: nat]\<rparr>,
      normalized_probs = (\<lambda>lg x. [Fin (real x), Fin 1])\<rparr>
     1 \<lparr>nrows = 2, ncols = 2, cells = [0, 1, 0, 1]\<rparr> (\<lambda>i. NaN) =
   Some (Inr \<lparr>nrows = 2, ncols = 2, cells = [Fin 0, Fin 1, Fin 2, Fin 1]\<rparr>)"
  using chunked_equals_single_shot
    [of "\<lparr>decoder_out0 = \<lparr>nrows = 2, ncols = 2, cells = [0, 1, 2, 3 :: nat]\<rparr>,
          normalized_probs = (\<lambda>lg x. [Fin (real x), Fin 1])\<rparr>"
        "\<lparr>nrows = 2, ncols = 2, cells = [0, 1, 0, 1]\<rparr>" 3 5
        "\<lparr>pad = 9, softmax_batch = 1, coef = None, lmbda = 1 / 2\<rparr>" 1 "\<lambda>i. NaN" "\<lambda>i. NaN"]
  by (simp add: wf_grid_def target_probs_def token_prob_def position_row_def pick_def)

text \<open>
  With a projection matrix and a batch of two sequences the two branches differ: the
  chunked one returns the probabilities, the single-shot one fails the assertion on the
  first dimension of \<open>curr_prob\<close>.
\<close>

theorem projection_single_shot_counterexample:
  "score_model \<lparr>pad = 9, softmax_batch = 1, coef = Some [[Fin 1]], lmbda = 1 / 2\<rparr>
     \<lparr>decoder_out0 = \<lparr>nrows = 2, ncols = 1, cells = [0, 1 :: nat]\<rparr>,
      normalized_probs = (\<lambda>lg x. [Fin 1])\<rparr>
     1 \<lparr>nrows = 2, ncols = 1, cells = [0, 0]\<rparr> (\<lambda>i. NaN) =
   Some (Inr \<lparr>nrows = 2, ncols = 1, cells = [Fin 0, Fin 0]\<rparr>)
   \<and> score_model \<lparr>pad = 9, softmax_batch = 3, coef = Some [[Fin 1]], lmbda = 1 / 2\<rparr>
     \<lparr>decoder_out0 = \<lparr>nrows = 2, ncols = 1, cells = [0, 1 :: nat]\<rparr>,
      normalized_probs = (\<lambda>lg x. [Fin 1])\<rparr>
     1 \<lparr>nrows = 2, ncols = 1, cells = [0, 0]\<rparr> (\<lambda>i. NaN) =
   Some (Inl AssertionError)"
proof -
  have "score_model \<lparr>pad = 9, softmax_batch = 1, coef = Some [[Fin 1]], lmbda = 1 / 2\<rparr>
     \<lparr>decoder_out0 = \<lparr>nrows = 2, ncols = 1, cells = [0, 1 :: nat]\<rparr>,
      normalized_probs = (\<lambda>lg x. [Fin 1])\<rparr>
     1 \<lparr>nrows = 2, ncols = 1, cells = [0, 0]\<rparr> (\<lambda>i. NaN) =
     Some (target_probs \<lparr>pad = 9, softmax_batch = 1, coef = Some [[Fin 1]], lmbda = 1 / 2\<rparr>
       \<lparr>decoder_out0 = \<lparr>nrows = 2, ncols = 1, cells = [0, 1 :: nat]\<rparr>,
        normalized_probs = (\<lambda>lg x. [Fin 1])\<rparr>
       1 \<lparr>nrows = 2, ncols = 1, cells = [0, 0]\<rparr>)"
    using score_model_chunked
      [of "\<lparr>pad = 9, softmax_batch = 1, coef = Some [[Fin 1]], lmbda = 1 / 2\<rparr>"
          "\<lparr>decoder_out0 = \<lparr>nrows = 2, ncols = 1, cells = [0, 1 :: nat]\<rparr>,
            normalized_probs = (\<lambda>lg x. [Fin 1])\<rparr>"
          "\<lparr>nrows = 2, ncols = 1, cells = [0, 0]\<rparr>" 1 "\<lambda>i. NaN"]
    by simp
  then show ?thesis
    by (simp add: target_probs_def token_prob_def position_row_def pick_def project_row_def
        fl_sum_def score_model_def batch_for_softmax_def score_chunk_def curr_prob_of_def
        map_cells_def)
qed

section \<open>The scores of the hypotheses\<close>

lemma take_drop_nths:
  assumes "a + n \<le> length xs"
  shows "take n (drop a xs) = map ((!) xs) [a..<a + n]"
  using assms by (intro nth_equalityI) simp_all

lemma py_slice_window:
  assumes "0 \<le> s" and "nat s + n \<le> length xs \<or> n = 0"
  shows "py_slice xs s (s + int n) = map ((!) xs) [nat s..<nat s + n]"
proof -
  have "py_slice xs (int (nat s)) (int (nat s) + int n) = take n (drop (nat s) xs)"
    by (rule py_slice_nat)
  moreover have "take n (drop (nat s) xs) = map ((!) xs) [nat s..<nat s + n]"
    using assms(2) by (auto intro: take_drop_nths)
  ultimately show ?thesis using assms(1) by simp
qed

lemma py_slice_from_nat: "0 \<le> s \<Longrightarrow> py_slice_from xs s = drop (nat s) xs"
  by (simp add: py_slice_from_def py_clip_def min_def)

lemma hypo_at_score:
  assumes idx: "py_index start_idxs i = Inr s" and s: "0 \<le> s"
    and len: "length (grid_row tgt i) = length (grid_row avg i)"
    and L: "tgt_len = length (filter (\<lambda>t. t \<noteq> pad sc) (drop (nat s) (grid_row tgt i)))"
  shows "\<exists>h. hypo_at sc tgt avg yhat start_idxs i = Inr h
           \<and> tokens h = filter (\<lambda>t. t \<noteq> pad sc) (drop (nat s) (grid_row tgt i))
           \<and> positional_scores h = map ((!) (grid_row avg i)) [nat s..<nat s + tgt_len]
           \<and> score h = fl_div (fl_sum (map ((!) (grid_row avg i)) [nat s..<nat s + tgt_len]))
                          (Fin (real tgt_len))"
proof -
  have "tgt_len \<le> length (drop (nat s) (grid_row tgt i))"
    unfolding L by (rule length_filter_le)
  then have "nat s + tgt_len \<le> length (grid_row avg i) \<or> tgt_len = 0"
    using len by auto
  from py_slice_window [OF s this]
  show ?thesis
    by (simp add: hypo_at_def idx Let_def strip_pad_def py_slice_from_nat [OF s] L [symmetric])
qed

lemma collect_nth:
  assumes "collect rs = Inr ys" and "i < length rs"
  shows "rs ! i = Inr (ys ! i)"
  using assms
proof (induction rs arbitrary: ys i)
  case Nil
  then show ?case by simp
next
  case (Cons r rs)
  then show ?case by (cases i) (auto split: sum.splits)
qed

lemma collect_all_Inr:
  assumes "\<And>r. r \<in> set rs \<Longrightarrow> \<exists>y. r = Inr y"
  shows "\<exists>ys. collect rs = Inr ys"
  using assms
proof (induction rs)
  case Nil
  then show ?case by simp
next
  case (Cons r rs)
  then obtain y ys where "r = Inr y" "collect rs = Inr ys" by (meson list.set_intros)
  then show ?case by simp
qed

lemma hypo_at_ok:
  assumes "i < length start_idxs"
  shows "\<exists>h. hypo_at sc tgt avg yhat start_idxs i = Inr h"
  using assms by (simp add: hypo_at_def py_index_def Let_def)

text \<open>
  Claim C7. For a sequence of the batch with the start offset \<open>s\<close>, the score is the sum
  of the positional log-probabilities at the positions \<open>s\<close> to \<open>s + tgt_len - 1\<close> divided by
  \<open>tgt_len\<close>, the number of target tokens from position \<open>s\<close> on that are not padding. The
  positions before \<open>s\<close> do not occur in the sum. The list of start offsets covers the batch
  and the offset is not negative.
\<close>

theorem left_padding_score:
  assumes starts: "case start_indices smp of None \<Rightarrow> True | Some l \<Rightarrow> nrows avg \<le> length l"
    and i: "i < nrows avg"
    and s: "s = (case start_indices smp of None \<Rightarrow> 0 | Some l \<Rightarrow> l ! i)" "0 \<le> s"
    and len: "length (grid_row (target smp) i) = length (grid_row avg i)"
    and L: "tgt_len = length (filter (\<lambda>t. t \<noteq> pad sc) (drop (nat s) (grid_row (target smp) i)))"
  shows "\<exists>hs. build_hypos sc smp avg yhat = Inr hs \<and> length hs = nrows avg
          \<and> positional_scores (hs ! i) = map ((!) (grid_row avg i)) [nat s..<nat s + tgt_len]
          \<and> score (hs ! i) =
              fl_div (fl_sum (map ((!) (grid_row avg i)) [nat s..<nat s + tgt_len]))
                (Fin (real tgt_len))"
proof -
  define start_idxs where
    "start_idxs = (case start_indices smp of Some l \<Rightarrow> l | None \<Rightarrow> replicate (nrows avg) 0)"
  define rs where
    "rs = map (hypo_at sc (target smp) avg yhat start_idxs) [0..<nrows avg]"
  have ls: "nrows avg \<le> length start_idxs"
    using starts by (simp add: start_idxs_def split: option.splits)
  have si: "py_index start_idxs i = Inr s"
    using i ls s(1) by (auto simp: py_index_def start_idxs_def split: option.splits)
  have "\<exists>ys. collect rs = Inr ys"
  proof (rule collect_all_Inr)
    fix r assume "r \<in> set rs"
    then obtain j where "j < nrows avg" "r = hypo_at sc (target smp) avg yhat start_idxs j"
      by (auto simp: rs_def)
    with ls hypo_at_ok [of j start_idxs sc "target smp" avg yhat]
    show "\<exists>y. r = Inr y" by auto
  qed
  then obtain hs where hs: "collect rs = Inr hs" ..
  have b: "build_hypos sc smp avg yhat = Inr hs"
    using hs by (simp add: build_hypos_def Let_def rs_def start_idxs_def)
  have lh: "length hs = nrows avg"
    using collect_length [OF hs] by (simp add: rs_def)
  have "rs ! i = Inr (hs ! i)"
    by (rule collect_nth [OF hs]) (simp add: rs_def i)
  then have h: "hypo_at sc (target smp) avg yhat start_idxs i = Inr (hs ! i)"
    using i by (simp add: rs_def)
  from hypo_at_score [OF si s(2) len L, of yhat] h b lh show ?thesis by auto
qed

theorem left_padding_score_witness:
  "build_hypos \<lparr>pad = 1, softmax_batch = 5, coef = None, lmbda = 1 / 2\<rparr>
     \<lparr>target = \<lparr>nrows = 1, ncols = 5, cells = [1, 1, 7, 8, 9]\<rparr>, start_indices = Some [2]\<rparr>
     \<lparr>nrows = 1, ncols = 5, cells = [Fin (- 10), Fin (- 20), Fin (- 1), Fin (- 2), Fin (- 3)]\<rparr>
     None =
   Inr [\<lparr>tokens = [7, 8, 9], score = Fin (- 2),
         positional_scores = [Fin (- 1), Fin (- 2), Fin (- 3)], knn_probs = None\<rparr>]
   \<and> fl_div (fl_sum (map ((!) [Fin (- 10), Fin (- 20), Fin (- 1), Fin (- 2), Fin (- 3)]) [2..<2 + 3]))
        (Fin (real (3 :: nat))) = Fin (- 2)"
proof -
  define smp where
    "smp = \<lparr>target = \<lparr>nrows = 1, ncols = 5, cells = [1, 1, 7, 8, 9]\<rparr>, start_indices = Some [2]\<rparr>"
  define avg where
    "avg = \<lparr>nrows = 1, ncols = 5,
            cells = [Fin (- 10), Fin (- 20), Fin (- 1), Fin (- 2), Fin (- 3)]\<rparr>"
  define sc where "sc = \<lparr>pad = 1, softmax_batch = 5, coef = None, lmbda = 1 / 2\<rparr>"
  have row: "grid_row avg 0 = [Fin (- 10), Fin (- 20), Fin (- 1), Fin (- 2), Fin (- 3)]"
    and trow: "grid_row (target smp) 0 = [1, 1, 7, 8, 9]"
    by (simp_all add: grid_row_def avg_def smp_def)
  have e: "build_hypos sc smp avg None =
           Inr [\<lparr>tokens = [7, 8, 9], score = Fin (- 2),
                 positional_scores = [Fin (- 1), Fin (- 2), Fin (- 3)], knn_probs = None\<rparr>]"
    by (simp add: build_hypos_def hypo_at_def py_index_def grid_row_def strip_pad_def
        py_slice_from_def py_slice_def py_clip_def fl_sum_def Let_def smp_def avg_def sc_def)
  have "\<exists>hs. build_hypos sc smp avg None = Inr hs \<and> length hs = nrows avg
          \<and> positional_scores (hs ! 0) = map ((!) (grid_row avg 0)) [nat 2..<nat 2 + 3]
          \<and> score (hs ! 0) =
              fl_div (fl_sum (map ((!) (grid_row avg 0)) [nat 2..<nat 2 + 3])) (Fin (real (3 :: nat)))"
  proof (rule left_padding_score)
    show "case start_indices smp of None \<Rightarrow> True | Some l \<Rightarrow> nrows avg \<le> length l"
      by (simp add: smp_def avg_def)
    show "0 < nrows avg" by (simp add: avg_def)
    show "2 = (case start_indices smp of None \<Rightarrow> 0 | Some l \<Rightarrow> l ! 0)" by (simp add: smp_def)
    show "(0 :: int) \<le> 2" by simp
    show "length (grid_row (target smp) 0) = length (grid_row avg 0)" by (simp add: row trow)
    show "3 = length (filter (\<lambda>t. t \<noteq> pad sc) (drop (nat 2) (grid_row (target smp) 0)))"
      by (simp add: trow sc_def numeral_2_eq_2)
  qed
  then have "score (the_elem {h. build_hypos sc smp avg None = Inr [h]}) =
             fl_div (fl_sum (map ((!) (grid_row avg 0)) [nat 2..<nat 2 + 3])) (Fin (real (3 :: nat)))"
    unfolding e by auto
  then have "fl_div (fl_sum (map ((!) (grid_row avg 0)) [nat 2..<nat 2 + 3])) (Fin (real (3 :: nat))) =
             Fin (- 2)"
    unfolding e by simp
  with e show ?thesis
    unfolding row smp_def avg_def sc_def by (simp add: fl_sum_def grid_row_def)
qed

section \<open>Errors of generate\<close>

lemma slices_total:
  assumes "0 < sb"
  shows "0 \<le> s \<Longrightarrow> \<exists>batched. slices sb n cf ct s = Some batched"
proof (induction "nat (int n - s)" arbitrary: s rule: less_induct)
  case less
  show ?case
  proof (cases "s < int n")
    case False
    then show ?thesis by (subst slices.simps) simp
  next
    case True
    have "\<exists>batched. slices sb n cf ct (s + sb) = Some batched"
    proof (rule less.hyps)
      show "nat (int n - (s + sb)) < nat (int n - s)" using True assms by linarith
      show "0 \<le> s + sb" using less.prems assms by simp
    qed
    then obtain more where "slices sb n cf ct (s + sb) = Some more" ..
    with True show ?thesis by (subst slices.simps) simp
  qed
qed

lemma batch_for_softmax_total:
  assumes "0 < softmax_batch sc"
  shows "\<exists>r. batch_for_softmax sc first tgt = Some r"
  using slices_total [OF assms, of 0 "nrows first * ncols first" "cells first" "cells tgt"]
  by (auto simp: batch_for_softmax_def Let_def)

lemma score_model_total:
  assumes "0 < softmax_batch sc"
  shows "\<exists>r. score_model sc m n tgt uninit = Some r"
  using batch_for_softmax_total [OF assms, of "decoder_out0 m" tgt]
  by (auto simp: score_model_def split: sum.splits)

lemma gather_error: "gather_target_probs p t = Inl e \<Longrightarrow> e = RuntimeError"
  by (auto simp: gather_pick pick_def split: if_splits sum.splits dest!: collect_Inl_mem)

lemma curr_prob_error:
  "curr_prob_of sc m n bd = Inl e \<Longrightarrow> e = AssertionError \<or> e = RuntimeError"
  by (auto simp: curr_prob_of_def Let_def split: option.splits if_splits sum.splits
      dest!: collect_Inl_mem dest: project_row_error project_row_error [OF sym])

lemma assign_slice_error: "assign_slice buf i j v = Inl e \<Longrightarrow> e = RuntimeError"
  by (auto simp: assign_slice_def Let_def split: if_splits)

lemma score_chunk_error:
  "score_chunk sc m n orig uninit item st = Inl e \<Longrightarrow> e \<noteq> ValueError"
  by (auto simp: score_chunk_def Let_def split: prod.splits sum.splits if_splits
      dest: gather_error curr_prob_error assign_slice_error)

lemma fold_err_error:
  assumes "\<And>x st e. f x st = Inl e \<Longrightarrow> P e"
  shows "fold_err f xs st = Inl e \<Longrightarrow> P e"
  by (induction xs arbitrary: st) (auto split: sum.splits dest: assms)

lemma view_as_error: "view_as p t = Inl e \<Longrightarrow> e \<noteq> ValueError"
  by (auto simp: view_as_def split: option.splits if_splits)

lemma score_model_error:
  assumes "score_model sc m n tgt uninit = Some (Inl e)"
  shows "e \<noteq> ValueError"
proof -
  have f: "fold_err (score_chunk sc m n tgt uninit) b st = Inl e' \<Longrightarrow> e' \<noteq> ValueError"
    for b st e'
    by (rule fold_err_error [where P = "\<lambda>e. e \<noteq> ValueError"]) (rule score_chunk_error)
  have "batch_for_softmax sc (decoder_out0 m) tgt = Some (Inl e') \<Longrightarrow> e' = RuntimeError" for e'
    by (auto simp: batch_for_softmax_def Let_def split: if_splits)
  with assms show ?thesis
    by (auto simp: score_model_def split: option.splits sum.splits dest: f view_as_error)
qed

lemma knn_fusion_error:
  "knn_fusion sc 1 d tgt probs = Inl e \<Longrightarrow> e = RuntimeError"
  by (auto simp: knn_fusion_def Let_def split: option.splits if_splits)

lemma knn_fusion_rejects:
  "n \<noteq> 1 \<Longrightarrow> knn_fusion sc n (Some d) tgt probs = Inl ValueError"
  by (simp add: knn_fusion_def)

lemma hypo_at_error: "hypo_at sc tgt avg yhat starts i = Inl e \<Longrightarrow> e = IndexError"
  by (auto simp: hypo_at_def py_index_def Let_def split: if_splits)

lemma build_hypos_error: "build_hypos sc smp avg yhat = Inl e \<Longrightarrow> e = IndexError"
  by (auto simp: build_hypos_def Let_def dest!: collect_Inl_mem
      dest: hypo_at_error hypo_at_error [OF sym])

text \<open>
  Claim C9. A call with a datastore and more than one model fails: it returns an error,
  and the error is the \<open>ValueError\<close> of the explicit check as soon as the scoring of the
  first model itself succeeds. A call with a datastore and exactly one model never raises
  this error. The scorer comes from the constructor, so its limit is positive.
\<close>

theorem knn_with_ensemble_rejected:
  assumes "0 < softmax_batch sc"
  shows "(1 < length models \<longrightarrow>
            (\<exists>e. generate sc models smp (Some d) uninit = Some (Inl e))
          \<and> (\<forall>p. score_model sc (hd models) (length models) (target smp) uninit = Some (Inr p)
                 \<longrightarrow> generate sc models smp (Some d) uninit = Some (Inl ValueError)))
       \<and> generate sc [m] smp (Some d) uninit \<noteq> Some (Inl ValueError)"
proof (intro conjI impI)
  assume len: "1 < length models"
  then obtain m0 ms where models: "models = m0 # ms" by (cases models) auto
  from score_model_total [OF assms] obtain r where
    r: "score_model sc m0 (length models) (target smp) uninit = Some r" by blast
  have n: "length models \<noteq> 1" using len by simp
  show "\<exists>e. generate sc models smp (Some d) uninit = Some (Inl e)"
  proof (cases r)
    case (Inl e)
    with r show ?thesis
      by (simp add: generate_def per_model_def models)
  next
    case (Inr p)
    with r knn_fusion_rejects [OF n] show ?thesis
      by (simp add: generate_def per_model_def models)
  qed
  show "\<forall>p. score_model sc (hd models) (length models) (target smp) uninit = Some (Inr p)
             \<longrightarrow> generate sc models smp (Some d) uninit = Some (Inl ValueError)"
    using knn_fusion_rejects [OF n]
    by (simp add: generate_def per_model_def models)
next
  show "generate sc [m] smp (Some d) uninit \<noteq> Some (Inl ValueError)"
  proof
    assume g: "generate sc [m] smp (Some d) uninit = Some (Inl ValueError)"
    from score_model_total [OF assms] obtain r where
      r: "score_model sc m 1 (target smp) uninit = Some r" by blast
    show False
    proof (cases r)
      case (Inl e)
      with r score_model_error [of sc m 1 "target smp" uninit e] g show False
        by (simp add: generate_def per_model_def)
    next
      case (Inr p)
      show False
      proof (cases "knn_fusion sc 1 (Some d) (target smp) p")
        case (Inl e)
        with knn_fusion_error [OF Inl] r Inr g show False
          by (simp add: generate_def per_model_def)
      next
        case (Inr q)
        with r \<open>r = Inr p\<close> g show False
          by (cases q) (auto simp: generate_def per_model_def finish_avg_def
              dest: build_hypos_error)
      qed
    qed
  qed
qed


lemmas generate_eval =
  generate_def per_model_def score_model_def batch_for_softmax_def score_chunk_def
  curr_prob_of_def map_cells_def gather_target_probs_def view_as_def knn_fusion_def
  combine_knn_and_vocab_probs_def np_log_def logsumexp_def fl_sum_def finish_avg_def
  build_hypos_def hypo_at_def py_index_def grid_row_def strip_pad_def py_slice_from_def
  py_slice_def py_clip_def grid_add_def project_row_def Let_def

theorem knn_with_ensemble_rejected_witness:
  "generate \<lparr>pad = 1, softmax_batch = 5, coef = None, lmbda = 1 / 2\<rparr>
     [\<lparr>decoder_out0 = \<lparr>nrows = 1, ncols = 1, cells = [0 :: nat]\<rparr>,
       normalized_probs = (\<lambda>lg x. if lg then [Fin 0] else [Fin 1])\<rparr>,
      \<lparr>decoder_out0 = \<lparr>nrows = 1, ncols = 1, cells = [0 :: nat]\<rparr>,
       normalized_probs = (\<lambda>lg x. if lg then [Fin 0] else [Fin 1])\<rparr>]
     \<lparr>target = \<lparr>nrows = 1, ncols = 1, cells = [0]\<rparr>, start_indices = None\<rparr>
     (Some (\<lambda>t p. \<lparr>nrows = 1, ncols = 1, cells = [Fin 0]\<rparr>)) (\<lambda>i. NaN) =
   Some (Inl ValueError)
   \<and> generate \<lparr>pad = 1, softmax_batch = 5, coef = None, lmbda = 1 / 2\<rparr>
     [\<lparr>decoder_out0 = \<lparr>nrows = 1, ncols = 1, cells = [0 :: nat]\<rparr>,
       normalized_probs = (\<lambda>lg x. if lg then [Fin 0] else [Fin 1])\<rparr>]
     \<lparr>target = \<lparr>nrows = 1, ncols = 1, cells = [0]\<rparr>, start_indices = None\<rparr>
     (Some (\<lambda>t p. \<lparr>nrows = 1, ncols = 1, cells = [Fin 0]\<rparr>)) (\<lambda>i. NaN) =
   Some (Inr [\<lparr>tokens = [0], score = Fin 0, positional_scores = [Fin 0],
               knn_probs = Some [Fin 0]\<rparr>])"
proof -
  define sc where "sc = \<lparr>pad = 1, softmax_batch = 5, coef = None, lmbda = 1 / 2\<rparr>"
  define m where "m = \<lparr>decoder_out0 = \<lparr>nrows = 1, ncols = 1, cells = [0 :: nat]\<rparr>,
       normalized_probs = (\<lambda>lg x. if lg then [Fin 0] else [Fin 1])\<rparr>"
  define smp where "smp = \<lparr>target = \<lparr>nrows = 1, ncols = 1, cells = [0]\<rparr>, start_indices = None\<rparr>"
  define d :: "nat grid \<Rightarrow> nat \<Rightarrow> fl grid" where "d = (\<lambda>t p. \<lparr>nrows = 1, ncols = 1, cells = [Fin 0]\<rparr>)"
  have pos: "0 < softmax_batch sc" by (simp add: sc_def)
  have one: "score_model sc (hd [m, m]) (length [m, m]) (target smp) (\<lambda>i. NaN) =
             Some (Inr \<lparr>nrows = 1, ncols = 1, cells = [Fin 1]\<rparr>)"
    by (simp add: sc_def m_def smp_def score_model_def batch_for_softmax_def score_chunk_def
        curr_prob_of_def map_cells_def gather_target_probs_def view_as_def Let_def)
  have len: "1 < length [m, m]" by simp
  from knn_with_ensemble_rejected [OF pos, of "[m, m]" smp d "\<lambda>i. NaN" m] len one
  have two: "generate sc [m, m] smp (Some d) (\<lambda>i. NaN) = Some (Inl ValueError)"
    by blast
  have single: "generate sc [m] smp (Some d) (\<lambda>i. NaN) =
        Some (Inr [\<lparr>tokens = [0], score = Fin 0, positional_scores = [Fin 0],
                    knn_probs = Some [Fin 0]\<rparr>])"
    by (simp add: sc_def m_def smp_def d_def generate_eval)
  from two single show ?thesis
    unfolding sc_def m_def smp_def d_def by simp
qed

section \<open>Interpolation and ensembles\<close>

lemma combine_elementwise:
  assumes "length knn_p = length vocab_p"
  shows "combine_knn_and_vocab_probs knn_p vocab_p coeff =
         map2 (\<lambda>v k. logsumexp [fl_add v (np_log (1 - coeff)), fl_add k (np_log coeff)])
           vocab_p knn_p"
proof (rule nth_equalityI)
  show "length (combine_knn_and_vocab_probs knn_p vocab_p coeff) =
        length (map2 (\<lambda>v k. logsumexp [fl_add v (np_log (1 - coeff)), fl_add k (np_log coeff)])
                  vocab_p knn_p)"
    using assms by (simp add: combine_knn_and_vocab_probs_def Let_def)
next
  fix i assume "i < length (combine_knn_and_vocab_probs knn_p vocab_p coeff)"
  then have i: "i < length vocab_p" "i < length knn_p"
    using assms by (simp_all add: combine_knn_and_vocab_probs_def Let_def)
  then show "combine_knn_and_vocab_probs knn_p vocab_p coeff ! i =
        map2 (\<lambda>v k. logsumexp [fl_add v (np_log (1 - coeff)), fl_add k (np_log coeff)])
          vocab_p knn_p ! i"
    by (simp add: combine_knn_and_vocab_probs_def Let_def)
qed

lemma mixture_value:
  assumes "0 < l" and "l < 1"
  shows "logsumexp [fl_add (Fin v) (np_log (1 - l)), fl_add (Fin k) (np_log l)] =
         Fin (ln ((1 - l) * exp v + l * exp k))"
proof -
  have "0 < (1 - l) * exp v + l * exp k"
    using assms by (simp add: add_pos_pos)
  then show ?thesis
    using assms by (simp add: logsumexp_def fl_sum_def np_log_def exp_add mult.commute)
qed

text \<open>
  Claim C1, as the code has it. For two tensors of one shape and every mixing weight, the
  interpolation is the logsumexp, entry by entry, over the model log-probability plus
  \<open>log(1 - lambda)\<close> and the retrieval log-probability plus \<open>log(lambda)\<close>, and the fusion
  returns it: the weight is not checked. For a weight strictly between 0 and 1 and finite
  entries this is the logarithm of the mixture of the two probabilities.
\<close>

theorem interpolation_unvalidated:
  assumes "nrows (d tgt (pad sc)) = nrows probs" and "ncols (d tgt (pad sc)) = ncols probs"
    and "length (cells (d tgt (pad sc))) = length (cells probs)"
  shows "combine_knn_and_vocab_probs (cells (d tgt (pad sc))) (cells probs) (lmbda sc) =
           map2 (\<lambda>v k. logsumexp [fl_add v (np_log (1 - lmbda sc)),
                                    fl_add k (np_log (lmbda sc))])
             (cells probs) (cells (d tgt (pad sc)))
         \<and> knn_fusion sc 1 (Some d) tgt probs =
             Inr (\<lparr>nrows = nrows probs, ncols = ncols probs,
                   cells = combine_knn_and_vocab_probs (cells (d tgt (pad sc))) (cells probs)
                             (lmbda sc)\<rparr>,
                  Some (d tgt (pad sc)))
         \<and> (0 < lmbda sc \<and> lmbda sc < 1 \<longrightarrow>
              (\<forall>v k. logsumexp [fl_add (Fin v) (np_log (1 - lmbda sc)),
                                fl_add (Fin k) (np_log (lmbda sc))] =
                     Fin (ln ((1 - lmbda sc) * exp v + lmbda sc * exp k))))"
  using assms by (simp add: knn_fusion_def Let_def combine_elementwise mixture_value)

theorem interpolation_unvalidated_witness:
  "knn_fusion \<lparr>pad = 1, softmax_batch = 5, coef = None, lmbda = 1 / 4\<rparr> 1
     (Some (\<lambda>t p. \<lparr>nrows = 1, ncols = 1, cells = [Fin 0]\<rparr>))
     \<lparr>nrows = 1, ncols = 1, cells = [0]\<rparr> \<lparr>nrows = 1, ncols = 1, cells = [Fin 0]\<rparr> =
   Inr (\<lparr>nrows = 1, ncols = 1, cells = [Fin 0]\<rparr>, Some \<lparr>nrows = 1, ncols = 1, cells = [Fin 0]\<rparr>)"
proof -
  define sc where "sc = \<lparr>pad = 1, softmax_batch = 5, coef = None, lmbda = 1 / 4\<rparr>"
  define d :: "nat grid \<Rightarrow> nat \<Rightarrow> fl grid" where
    "d = (\<lambda>t p. \<lparr>nrows = 1, ncols = 1, cells = [Fin 0]\<rparr>)"
  define probs :: "fl grid" where "probs = \<lparr>nrows = 1, ncols = 1, cells = [Fin 0]\<rparr>"
  have h: "nrows (d \<lparr>nrows = 1, ncols = 1, cells = [0]\<rparr> (pad sc)) = nrows probs"
    "ncols (d \<lparr>nrows = 1, ncols = 1, cells = [0]\<rparr> (pad sc)) = ncols probs"
    "length (cells (d \<lparr>nrows = 1, ncols = 1, cells = [0]\<rparr> (pad sc))) = length (cells probs)"
    by (simp_all add: d_def probs_def)
  have l: "0 < lmbda sc \<and> lmbda sc < 1" by (simp add: sc_def)
  from interpolation_unvalidated
    [where d = d and sc = sc and probs = probs and tgt = "\<lparr>nrows = 1, ncols = 1, cells = [0]\<rparr>",
      OF h] l
  have "combine_knn_and_vocab_probs (cells (d \<lparr>nrows = 1, ncols = 1, cells = [0]\<rparr> (pad sc)))
          (cells probs) (lmbda sc) =
        map2 (\<lambda>v k. logsumexp [fl_add v (np_log (1 - lmbda sc)), fl_add k (np_log (lmbda sc))])
          (cells probs) (cells (d \<lparr>nrows = 1, ncols = 1, cells = [0]\<rparr> (pad sc)))"
    and "knn_fusion sc 1 (Some d) \<lparr>nrows = 1, ncols = 1, cells = [0]\<rparr> probs =
        Inr (\<lparr>nrows = nrows probs, ncols = ncols probs,
              cells = combine_knn_and_vocab_probs
                        (cells (d \<lparr>nrows = 1, ncols = 1, cells = [0]\<rparr> (pad sc))) (cells probs)
                        (lmbda sc)\<rparr>,
             Some (d \<lparr>nrows = 1, ncols = 1, cells = [0]\<rparr> (pad sc)))"
    and "logsumexp [fl_add (Fin 0) (np_log (1 - lmbda sc)), fl_add (Fin 0) (np_log (lmbda sc))] =
         Fin (ln ((1 - lmbda sc) * exp 0 + lmbda sc * exp 0))"
    by blast+
  then show ?thesis
    unfolding sc_def d_def probs_def by simp
qed

text \<open>
  No weight is rejected: with the weight 1 the call returns the retrieval log-probability,
  and with the weight 2 it returns NaN, the logarithm of a negative number.
\<close>

theorem mixing_weight_counterexample:
  "generate \<lparr>pad = 1, softmax_batch = 5, coef = None, lmbda = 1\<rparr>
     [\<lparr>decoder_out0 = \<lparr>nrows = 1, ncols = 1, cells = [0 :: nat]\<rparr>,
       normalized_probs = (\<lambda>lg x. if lg then [Fin 0] else [Fin 1])\<rparr>]
     \<lparr>target = \<lparr>nrows = 1, ncols = 1, cells = [0]\<rparr>, start_indices = None\<rparr>
     (Some (\<lambda>t p. \<lparr>nrows = 1, ncols = 1, cells = [Fin 0]\<rparr>)) (\<lambda>i. NaN) =
   Some (Inr [\<lparr>tokens = [0], score = Fin 0, positional_scores = [Fin 0],
               knn_probs = Some [Fin 0]\<rparr>])
   \<and> generate \<lparr>pad = 1, softmax_batch = 5, coef = None, lmbda = 2\<rparr>
     [\<lparr>decoder_out0 = \<lparr>nrows = 1, ncols = 1, cells = [0 :: nat]\<rparr>,
       normalized_probs = (\<lambda>lg x. if lg then [Fin 0] else [Fin 1])\<rparr>]
     \<lparr>target = \<lparr>nrows = 1, ncols = 1, cells = [0]\<rparr>, start_indices = None\<rparr>
     (Some (\<lambda>t p. \<lparr>nrows = 1, ncols = 1, cells = [Fin 0]\<rparr>)) (\<lambda>i. NaN) =
   Some (Inr [\<lparr>tokens = [0], score = NaN, positional_scores = [NaN],
               knn_probs = Some [Fin 0]\<rparr>])"
  by (simp add: generate_eval)

text \<open>
  Claim C4 at an input where the code departs from it. Two models that give the target the
  probability 1/2: with the identity as projection matrix the logarithms of the
  probabilities are summed, halved and passed to the logarithm again, which is NaN; with
  no projection matrix the probabilities are averaged and the logarithm is taken once.
\<close>

theorem ensemble_projection_logs:
  "generate \<lparr>pad = 1, softmax_batch = 5,
             coef = Some [[Fin 1, Fin 0], [Fin 0, Fin 1]], lmbda = 1 / 2\<rparr>
     [\<lparr>decoder_out0 = \<lparr>nrows = 1, ncols = 1, cells = [0 :: nat]\<rparr>,
       normalized_probs = (\<lambda>lg x. [Fin (1 / 2), Fin (1 / 2)])\<rparr>,
      \<lparr>decoder_out0 = \<lparr>nrows = 1, ncols = 1, cells = [0 :: nat]\<rparr>,
       normalized_probs = (\<lambda>lg x. [Fin (1 / 2), Fin (1 / 2)])\<rparr>]
     \<lparr>target = \<lparr>nrows = 1, ncols = 1, cells = [0]\<rparr>, start_indices = None\<rparr>
     None (\<lambda>i. NaN) =
   Some (Inr [\<lparr>tokens = [0], score = NaN, positional_scores = [NaN], knn_probs = None\<rparr>])
   \<and> generate \<lparr>pad = 1, softmax_batch = 5, coef = None, lmbda = 1 / 2\<rparr>
     [\<lparr>decoder_out0 = \<lparr>nrows = 1, ncols = 1, cells = [0 :: nat]\<rparr>,
       normalized_probs = (\<lambda>lg x. [Fin (1 / 2), Fin (1 / 2)])\<rparr>,
      \<lparr>decoder_out0 = \<lparr>nrows = 1, ncols = 1, cells = [0 :: nat]\<rparr>,
       normalized_probs = (\<lambda>lg x. [Fin (1 / 2), Fin (1 / 2)])\<rparr>]
     \<lparr>target = \<lparr>nrows = 1, ncols = 1, cells = [0]\<rparr>, start_indices = None\<rparr>
     None (\<lambda>i. NaN) =
   Some (Inr [\<lparr>tokens = [0], score = Fin (ln (1 / 2)), positional_scores = [Fin (ln (1 / 2))],
               knn_probs = None\<rparr>])"
proof -
  have "ln (1 / 2 :: real) < 0" by simp
  then have "\<not> 0 < ln (1 / 2 :: real)" "ln (1 / 2 :: real) \<noteq> 0" by simp_all
  then show ?thesis
    by (simp add: generate_eval del: ln_divide_pos ln_div)
qed

end
